theory Spec2Isabelle
  imports Complex_Main "HOL-Library.Sublist" "HOL-Library.Multiset" "HOL-Library.Char_ord"
    "HOL-Library.List_Lexorder" "HOL-Library.Product_Lexorder"
begin

section \<open>fastbound\_importer: column reconciliation\<close>

text \<open>
  A shallow embedding of \<^verbatim>\<open>fastbound_importer.py\<close>: the normaliser \<^verbatim>\<open>norm\<close>, the
  alias table \<^verbatim>\<open>ALIASES\<close>, the override loader \<^verbatim>\<open>read_overrides\<close>, the resolver
  \<^verbatim>\<open>build_mapping\<close> and the part of \<^verbatim>\<open>main\<close> that builds the guidance sheet and
  the exit status.

  Conventions of the embedding.
  \<^item> A Python \<^verbatim>\<open>str\<close> is a \<open>string\<close>; a \<open>char\<close> stands for the code point of the same
    number, so the strings covered are those over the code points 0 to 255. On this range
    \<^verbatim>\<open>str.lower\<close> and \<^verbatim>\<open>str.isalnum\<close> are the tables written out below.
  \<^item> A \<^verbatim>\<open>dict\<close> keeps insertion order: it is an association list with distinct keys,
    updated in place by \<open>dict_set\<close>.
  \<^item> An exception is a value \<open>Inl e\<close> of the result type.
  \<^item> A \<^verbatim>\<open>float\<close> (the cutoff and the similarity scores) is a rational number; scores are
    compared exactly.
\<close>

subsection \<open>Exceptions and dictionaries\<close>

datatype py_error =
    ValueError string
  | NameError string
  | KeyError
  | FileNotFoundError
  | RuntimeError
  | SystemExit nat

fun dict_set :: "('k \<times> 'v) list \<Rightarrow> 'k \<Rightarrow> 'v \<Rightarrow> ('k \<times> 'v) list" where
  "dict_set [] k v = [(k, v)]"
| "dict_set ((k', v') # d) k v =
     (if k' = k then (k', v) # d else (k', v') # dict_set d k v)"

text \<open>Truthiness of a value that is \<^verbatim>\<open>None\<close> or a \<^verbatim>\<open>str\<close>.\<close>

fun truthy :: "string option \<Rightarrow> bool" where
  "truthy None = False"
| "truthy (Some s) = (s \<noteq> [])"

subsection \<open>The normaliser\<close>

text \<open>\<^verbatim>\<open>ch.lower()\<close> for one code point below 256.\<close>

definition lower_char :: "char \<Rightarrow> char" where
  "lower_char c = (let n = (of_char c :: nat) in
     if (65 \<le> n \<and> n \<le> 90) \<or> (192 \<le> n \<and> n \<le> 222 \<and> n \<noteq> 215)
     then char_of (n + 32) else c)"

text \<open>\<^verbatim>\<open>ch.isalnum()\<close> for one code point below 256.\<close>

definition isalnum :: "char \<Rightarrow> bool" where
  "isalnum c = (let n = (of_char c :: nat) in
     (48 \<le> n \<and> n \<le> 57) \<or> (65 \<le> n \<and> n \<le> 90) \<or> (97 \<le> n \<and> n \<le> 122) \<or>
     n = 170 \<or> n = 178 \<or> n = 179 \<or> n = 181 \<or> n = 185 \<or> n = 186 \<or>
     (188 \<le> n \<and> n \<le> 190) \<or> (192 \<le> n \<and> n \<le> 214) \<or> (216 \<le> n \<and> n \<le> 246) \<or>
     248 \<le> n)"

definition str_lower :: "string \<Rightarrow> string" where
  "str_lower s = map lower_char s"

text \<open>
  \<^verbatim>\<open>def norm(s): return ''.join(ch for ch in str(s).lower() if ch.isalnum())\<close>.
  The name \<open>norm\<close> is taken by the vector norm of the library.
\<close>

definition norm_key :: "string \<Rightarrow> string" where
  "norm_key s = filter isalnum (str_lower s)"

subsection \<open>The alias table\<close>

definition ALIASES :: "(string \<times> string list) list" where
  "ALIASES =
   [(''serialnumber'', [''serial'', ''serialnumber'', ''s/n'', ''sn'']),
    (''manufacturer'', [''manufacturer'', ''maker'', ''make'']),
    (''importer'', [''importer'']),
    (''model'', [''model'', ''mdl'']),
    (''type'', [''type'', ''firearmtype'', ''guntype'']),
    (''caliber'', [''caliber'', ''calibre'', ''gauge'']),
    (''barrellength'', [''barrellength'', ''barrel'', ''bbl'', ''lengthofbarrel'', ''barrellength(in)'']),
    (''overalllength'', [''overalllength'', ''oal'']),
    (''finish'', [''finish'', ''color'', ''colour'']),
    (''countryofmanufacture'', [''countryofmanufacture'', ''country'', ''manufacturecountry'']),
    (''upc'', [''upc'', ''barcode'']),
    (''sku'', [''sku'', ''item#'', ''itemnumber'', ''pn'', ''partnumber'']),
    (''acquisitiondate'', [''acquisitiondate'', ''dateacquired'', ''dateofacquisition'', ''receiveddate'']),
    (''acquiredfromname'', [''acquiredfromname'', ''supplier'', ''vendor'', ''acquiredfrom'']),
    (''acquiredfromaddress'', [''acquiredfromaddress'', ''supplieraddress'', ''vendoraddress'']),
    (''acquiredfromffl'', [''acquiredfromffl'', ''supplierffl'', ''vendorffl'', ''ffl'']),
    (''acquiredfromlicensetype'', [''acquiredfromlicensetype'', ''supplierlicensetype'']),
    (''acquiredfromcity'', [''acquiredfromcity'', ''suppliercity'']),
    (''acquiredfromstate'', [''acquiredfromstate'', ''supplierstate'']),
    (''acquiredfromzip'', [''acquiredfromzip'', ''supplierzip'', ''zipcode'', ''zip'']),
    (''acquisitiondocument'', [''acquisitiondocument'', ''invoice'', ''ponumber'', ''po'', ''bo'']),
    (''dispositiondate'', [''dispositiondate'', ''dateofdisposition'', ''datesold'', ''transferdate'', ''disposeddate'']),
    (''disposedtoname'', [''disposedtoname'', ''customername'', ''buyername'', ''transfereename'']),
    (''disposedtoaddress'', [''disposedtoaddress'', ''customeraddress'', ''buyeraddress'']),
    (''disposedtocity'', [''disposedtocity'', ''customercity'']),
    (''disposedtostate'', [''disposedtostate'', ''customerstate'']),
    (''disposedtozip'', [''disposedtozip'', ''customerzip'', ''zip'']),
    (''disposedtoffl'', [''disposedtoffl'', ''destinationffl'', ''receiverffl'', ''ffl'']),
    (''form4473'', [''4473'', ''form4473'', ''4473number'', ''4473#'']),
    (''nicsnumber'', [''nicsnumber'', ''nics'', ''ntn'', ''backgroundchecknumber'']),
    (''nicsstatus'', [''nicsstatus'', ''backgroundstatus'', ''status'']),
    (''nicsexpiration'', [''nicsexpiration'', ''nicsvaliduntil'', ''ntnexpire'']),
    (''transactionnumber'', [''transactionnumber'', ''trans#'', ''ttn'', ''ntn'']),
    (''permitnumber'', [''permit'', ''permitnumber'', ''cwfl'', ''ccw'']),
    (''permitexpiration'', [''permitexpiration'', ''permitexpires'']),
    (''birthdate'', [''dob'', ''dateofbirth'', ''birthdate'']),
    (''idnumber'', [''idnumber'', ''driverlicense'', ''dl'', ''identificationnumber'']),
    (''idstate'', [''idstate'', ''dlstate'']),
    (''cost'', [''cost'', ''unitcost'']),
    (''price'', [''price'', ''saleprice'', ''sellingprice'', ''amount''])]"

subsection \<open>The similarity score of \<^verbatim>\<open>difflib\<close>\<close>

text \<open>
  \<^verbatim>\<open>get_close_matches\<close> compares with a \<^verbatim>\<open>SequenceMatcher()\<close> whose second sequence
  \<open>b\<close> is the word looked for and whose first sequence \<open>a\<close> is the candidate. No junk
  predicate is given, so the junk set is empty; \<^verbatim>\<open>autojunk\<close> is on, so an element of a
  \<open>b\<close> of 200 or more elements that occurs more than \<open>len(b) // 100 + 1\<close> times is
  popular and has no entry in \<^verbatim>\<open>b2j\<close>.
\<close>

definition is_popular :: "string \<Rightarrow> char \<Rightarrow> bool" where
  "is_popular b elt = (length b \<ge> 200 \<and> count_list b elt > length b div 100 + 1)"

text \<open>\<^verbatim>\<open>b2j.get(elt, nothing)\<close>: the indices of \<open>elt\<close> in \<open>b\<close>, ascending.\<close>

definition b2j :: "string \<Rightarrow> char \<Rightarrow> nat list" where
  "b2j b elt = (if is_popular b elt then [] else filter (\<lambda>j. b ! j = elt) [0..<length b])"

text \<open>
  The inner loop of \<^verbatim>\<open>find_longest_match\<close> over the indices \<open>j\<close> of \<open>a[i]\<close> in \<open>b\<close>.
  \<^verbatim>\<open>j2len.get(j-1, 0)\<close> at \<open>j = 0\<close> asks for the key \<open>-1\<close>, which is never present.
\<close>

fun scan_row :: "nat \<Rightarrow> nat \<Rightarrow> nat \<Rightarrow> (nat \<rightharpoonup> nat) \<Rightarrow> nat list \<Rightarrow>
    (nat \<rightharpoonup> nat) \<times> (nat \<times> nat \<times> nat) \<Rightarrow> (nat \<rightharpoonup> nat) \<times> (nat \<times> nat \<times> nat)" where
  "scan_row i blo bhi j2len [] st = st"
| "scan_row i blo bhi j2len (j # js) (newj2len, (besti, bestj, bestsize)) =
     (if j < blo then scan_row i blo bhi j2len js (newj2len, (besti, bestj, bestsize))
      else if j \<ge> bhi then (newj2len, (besti, bestj, bestsize))
      else
        let k = (if j = 0 then 0 else case j2len (j - 1) of None \<Rightarrow> 0 | Some v \<Rightarrow> v) + 1
        in scan_row i blo bhi j2len js
             (newj2len(j \<mapsto> k),
              if k > bestsize then (i + 1 - k, j + 1 - k, k) else (besti, bestj, bestsize)))"

text \<open>The outer loop \<^verbatim>\<open>for i in range(alo, ahi)\<close>.\<close>

fun scan_rows :: "string \<Rightarrow> string \<Rightarrow> nat \<Rightarrow> nat \<Rightarrow> nat list \<Rightarrow> (nat \<rightharpoonup> nat) \<Rightarrow>
    (nat \<times> nat \<times> nat) \<Rightarrow> (nat \<times> nat \<times> nat)" where
  "scan_rows a b blo bhi [] j2len best = best"
| "scan_rows a b blo bhi (i # is) j2len best =
     (case scan_row i blo bhi j2len (b2j b (a ! i)) (Map.empty, best) of
        (newj2len, best') \<Rightarrow> scan_rows a b blo bhi is newj2len best')"

text \<open>
  The two loops that extend the best block by equal elements on each end (the test
  \<^verbatim>\<open>not isbjunk(...)\<close> is always true). The two loops after them extend by junk elements
  and never run.
\<close>

function extend_left :: "string \<Rightarrow> string \<Rightarrow> nat \<Rightarrow> nat \<Rightarrow> (nat \<times> nat \<times> nat) \<Rightarrow> (nat \<times> nat \<times> nat)" where
  "extend_left a b alo blo (besti, bestj, bestsize) =
     (if besti > alo \<and> bestj > blo \<and> a ! (besti - 1) = b ! (bestj - 1)
      then extend_left a b alo blo (besti - 1, bestj - 1, bestsize + 1)
      else (besti, bestj, bestsize))"
  by pat_completeness auto
termination
  by (relation "measure (\<lambda>(a, b, alo, blo, besti, bestj, bestsize). besti)") auto

function extend_right :: "string \<Rightarrow> string \<Rightarrow> nat \<Rightarrow> nat \<Rightarrow> (nat \<times> nat \<times> nat) \<Rightarrow> (nat \<times> nat \<times> nat)" where
  "extend_right a b ahi bhi (besti, bestj, bestsize) =
     (if besti + bestsize < ahi \<and> bestj + bestsize < bhi \<and>
         a ! (besti + bestsize) = b ! (bestj + bestsize)
      then extend_right a b ahi bhi (besti, bestj, bestsize + 1)
      else (besti, bestj, bestsize))"
  by pat_completeness auto
termination
  by (relation "measure (\<lambda>(a, b, ahi, bhi, besti, bestj, bestsize). ahi - (besti + bestsize))") auto

definition find_longest_match :: "string \<Rightarrow> string \<Rightarrow> nat \<Rightarrow> nat \<Rightarrow> nat \<Rightarrow> nat \<Rightarrow> nat \<times> nat \<times> nat" where
  "find_longest_match a b alo ahi blo bhi =
     extend_right a b ahi bhi
       (extend_left a b alo blo
          (scan_rows a b blo bhi [alo..<ahi] Map.empty (alo, blo, 0)))"

declare extend_left.simps [simp del] extend_right.simps [simp del]

text \<open>
  What the dynamic programme of \<^verbatim>\<open>find_longest_match\<close> maintains: an entry \<open>k\<close> of
  \<^verbatim>\<open>j2len\<close> at \<open>j\<close> in row \<open>i\<close> is the length of a common block that ends at
  \<open>a[i]\<close> and \<open>b[j]\<close> and lies inside the two ranges; the best block lies inside the
  ranges and its elements agree. These facts give the termination of the loop of
  \<^verbatim>\<open>get_matching_blocks\<close>.
\<close>

definition cell_ok :: "string \<Rightarrow> string \<Rightarrow> nat \<Rightarrow> nat \<Rightarrow> nat \<Rightarrow> nat \<Rightarrow> nat \<Rightarrow> nat \<Rightarrow> bool" where
  "cell_ok a b alo blo bhi i j k \<longleftrightarrow>
     blo \<le> j \<and> j < bhi \<and> 1 \<le> k \<and> alo + k \<le> i + 1 \<and> blo + k \<le> j + 1 \<and>
     (\<forall>t<k. a ! (i - t) = b ! (j - t))"

definition prev_ok :: "string \<Rightarrow> string \<Rightarrow> nat \<Rightarrow> nat \<Rightarrow> nat \<Rightarrow> nat \<Rightarrow> (nat \<rightharpoonup> nat) \<Rightarrow> bool" where
  "prev_ok a b alo blo bhi i j2len \<longleftrightarrow>
     (\<forall>j k. j2len j = Some k \<longrightarrow> (\<exists>i'. i = Suc i' \<and> cell_ok a b alo blo bhi i' j k))"

definition row_ok :: "string \<Rightarrow> string \<Rightarrow> nat \<Rightarrow> nat \<Rightarrow> nat \<Rightarrow> nat \<Rightarrow> (nat \<rightharpoonup> nat) \<Rightarrow> bool" where
  "row_ok a b alo blo bhi i m \<longleftrightarrow> (\<forall>j k. m j = Some k \<longrightarrow> cell_ok a b alo blo bhi i j k)"

definition best_ok :: "string \<Rightarrow> string \<Rightarrow> nat \<Rightarrow> nat \<Rightarrow> nat \<Rightarrow> nat \<Rightarrow> nat \<times> nat \<times> nat \<Rightarrow> bool" where
  "best_ok a b alo ahi blo bhi best \<longleftrightarrow> (case best of (i, j, k) \<Rightarrow>
     alo \<le> i \<and> blo \<le> j \<and> (if k = 0 then i = alo \<and> j = blo else i + k \<le> ahi \<and> j + k \<le> bhi) \<and>
     (\<forall>t<k. a ! (i + t) = b ! (j + t)))"

lemma new_cell_ok:
  assumes prev: "prev_ok a b alo blo bhi i j2len"
    and ij: "alo \<le> i" "blo \<le> j" "j < bhi" "b ! j = a ! i"
    and k: "k = (if j = 0 then 0 else case j2len (j - 1) of None \<Rightarrow> 0 | Some v \<Rightarrow> v) + 1"
  shows "cell_ok a b alo blo bhi i j k"
proof (cases "j = 0 \<or> j2len (j - 1) = None")
  case True
  then have "k = 1" using k by (auto split: option.splits)
  then show ?thesis using ij by (simp add: cell_ok_def)
next
  case False
  then obtain v where v: "j2len (j - 1) = Some v" and j0: "j \<noteq> 0" by auto
  then have kv: "k = v + 1" using k by simp
  from prev v obtain i' where i': "i = Suc i'" and c: "cell_ok a b alo blo bhi i' (j - 1) v"
    by (auto simp: prev_ok_def)
  have m: "a ! (i - t) = b ! (j - t)" if "t < k" for t
  proof (cases t)
    case 0
    then show ?thesis using ij by simp
  next
    case (Suc t')
    then have "t' < v" using that kv by simp
    then have "a ! (i' - t') = b ! (j - 1 - t')" using c by (simp add: cell_ok_def)
    then show ?thesis using Suc i' by simp
  qed
  from c have "alo + v \<le> i' + 1" "blo + v \<le> j - 1 + 1" by (simp_all add: cell_ok_def)
  then show ?thesis using ij kv i' j0 m by (simp add: cell_ok_def)
qed

lemma cell_best_ok:
  assumes c: "cell_ok a b alo blo bhi i j k" and i: "i < ahi"
  shows "best_ok a b alo ahi blo bhi (i + 1 - k, j + 1 - k, k)"
proof -
  from c have b: "blo \<le> j" "j < bhi" "1 \<le> k" "alo + k \<le> i + 1" "blo + k \<le> j + 1"
    and m: "\<And>t. t < k \<Longrightarrow> a ! (i - t) = b ! (j - t)"
    by (simp_all add: cell_ok_def)
  have "a ! (i + 1 - k + t) = b ! (j + 1 - k + t)" if "t < k" for t
  proof -
    have "k - 1 - t < k" using that by simp
    from m[OF this] have e: "a ! (i - (k - 1 - t)) = b ! (j - (k - 1 - t))" .
    have "i - (k - 1 - t) = i + 1 - k + t" using that b by arith
    moreover have "j - (k - 1 - t) = j + 1 - k + t" using that b by arith
    ultimately show ?thesis using e by (simp only:)
  qed
  then have m': "\<forall>t<k. a ! (i + 1 - k + t) = b ! (j + 1 - k + t)" by blast
  have n: "alo \<le> i + 1 - k \<and> blo \<le> j + 1 - k \<and>
      (if k = 0 then i + 1 - k = alo \<and> j + 1 - k = blo
       else i + 1 - k + k \<le> ahi \<and> j + 1 - k + k \<le> bhi)"
    using b i by auto
  show ?thesis unfolding best_ok_def prod.case using n m' by blast
qed

lemma scan_row_ok:
  assumes "prev_ok a b alo blo bhi i j2len" "alo \<le> i" "i < ahi"
    and "\<forall>j\<in>set js. b ! j = a ! i"
    and "row_ok a b alo blo bhi i new" "best_ok a b alo ahi blo bhi best"
    and "scan_row i blo bhi j2len js (new, best) = (new', best')"
  shows "row_ok a b alo blo bhi i new' \<and> best_ok a b alo ahi blo bhi best'"
  using assms
proof (induction js arbitrary: new best)
  case Nil
  then show ?case by simp
next
  case (Cons j js)
  obtain bi bj bs where best: "best = (bi, bj, bs)" by (cases best)
  show ?case
  proof (cases "j < blo")
    case True
    with Cons best show ?thesis by simp
  next
    case lo: False
    show ?thesis
    proof (cases "j \<ge> bhi")
      case True
      with lo Cons.prems best show ?thesis by simp
    next
      case hi: False
      define k where "k = (if j = 0 then 0 else case j2len (j - 1) of None \<Rightarrow> 0 | Some v \<Rightarrow> v) + 1"
      have c: "cell_ok a b alo blo bhi i j k"
        using new_cell_ok[OF Cons.prems(1) Cons.prems(2) _ _ _ k_def] lo hi Cons.prems(4) by simp
      have r: "row_ok a b alo blo bhi i (new(j \<mapsto> k))"
        using Cons.prems(5) c by (simp add: row_ok_def)
      have bo: "best_ok a b alo ahi blo bhi (if k > bs then (i + 1 - k, j + 1 - k, k) else (bi, bj, bs))"
        using cell_best_ok[OF c Cons.prems(3)] Cons.prems(6) best by simp
      have "scan_row i blo bhi j2len (j # js) (new, (bi, bj, bs)) =
          scan_row i blo bhi j2len js (new(j \<mapsto> k), if k > bs then (i + 1 - k, j + 1 - k, k) else (bi, bj, bs))"
        using lo hi by (simp add: k_def Let_def)
      with Cons.prems(7) best
      have "scan_row i blo bhi j2len js (new(j \<mapsto> k), if k > bs then (i + 1 - k, j + 1 - k, k) else (bi, bj, bs)) = (new', best')"
        by (simp only:)
      from Cons.IH[OF Cons.prems(1) Cons.prems(2) Cons.prems(3) _ r bo this] Cons.prems(4)
      show ?thesis by simp
    qed
  qed
qed

lemma b2j_match: "\<forall>j\<in>set (b2j b elt). b ! j = elt"
  by (simp add: b2j_def)

lemma row_prev: "row_ok a b alo blo bhi i m \<Longrightarrow> prev_ok a b alo blo bhi (Suc i) m"
  by (simp add: row_ok_def prev_ok_def)

lemma scan_rows_ok:
  assumes "prev_ok a b alo blo bhi i j2len" "alo \<le> i" "best_ok a b alo ahi blo bhi best"
  shows "best_ok a b alo ahi blo bhi (scan_rows a b blo bhi [i..<ahi] j2len best)"
  using assms
proof (induction "ahi - i" arbitrary: i j2len best)
  case 0
  then show ?case by simp
next
  case (Suc n)
  then have lt: "i < ahi" by simp
  obtain new' best' where s: "scan_row i blo bhi j2len (b2j b (a ! i)) (Map.empty, best) = (new', best')"
    by (cases "scan_row i blo bhi j2len (b2j b (a ! i)) (Map.empty, best)")
  have e: "row_ok a b alo blo bhi i Map.empty" by (simp add: row_ok_def)
  from scan_row_ok[OF Suc.prems(1) Suc.prems(2) lt b2j_match e Suc.prems(3) s]
  have r: "row_ok a b alo blo bhi i new'" and bo: "best_ok a b alo ahi blo bhi best'" by simp_all
  have "n = ahi - Suc i" using Suc.hyps(2) by simp
  from Suc.hyps(1)[OF this row_prev[OF r] _ bo] Suc.prems(2)
  have "best_ok a b alo ahi blo bhi (scan_rows a b blo bhi [Suc i..<ahi] new' best')" by simp
  then show ?case using lt s by (simp add: upt_conv_Cons)
qed

lemma extend_left_ok:
  "best_ok a b alo ahi blo bhi best \<Longrightarrow> best_ok a b alo ahi blo bhi (extend_left a b alo blo best)"
proof (induction a b alo blo best rule: extend_left.induct)
  case (1 a b alo blo besti bestj bestsize)
  show ?case
  proof (cases "besti > alo \<and> bestj > blo \<and> a ! (besti - 1) = b ! (bestj - 1)")
    case True
    have "a ! (besti - 1 + t) = b ! (bestj - 1 + t)" if "t < bestsize + 1" for t
    proof (cases t)
      case 0
      then show ?thesis using True by simp
    next
      case (Suc t')
      then have "t' < bestsize" using that by simp
      then have "a ! (besti + t') = b ! (bestj + t')" using "1.prems" by (simp add: best_ok_def)
      then show ?thesis using Suc True by simp
    qed
    then have m: "\<forall>t<bestsize + 1. a ! (besti - 1 + t) = b ! (bestj - 1 + t)" by blast
    from "1.prems" have inv: "if bestsize = 0 then besti = alo \<and> bestj = blo
        else besti + bestsize \<le> ahi \<and> bestj + bestsize \<le> bhi"
      by (simp add: best_ok_def)
    have ne: "bestsize \<noteq> 0" using inv True by (cases "bestsize = 0") simp_all
    then have "besti + bestsize \<le> ahi" "bestj + bestsize \<le> bhi" using inv by simp_all
    then have "alo \<le> besti - 1 \<and> blo \<le> bestj - 1 \<and>
       (if bestsize + 1 = 0 then besti - 1 = alo \<and> bestj - 1 = blo
        else besti - 1 + (bestsize + 1) \<le> ahi \<and> bestj - 1 + (bestsize + 1) \<le> bhi)"
      using True by auto
    with m have "best_ok a b alo ahi blo bhi (besti - 1, bestj - 1, bestsize + 1)"
      unfolding best_ok_def prod.case by blast
    from "1.IH"[OF True this] True show ?thesis
      by (subst extend_left.simps) simp
  next
    case False
    then show ?thesis using "1.prems" by (subst extend_left.simps) auto
  qed
qed

lemma extend_right_ok:
  "best_ok a b alo ahi blo bhi best \<Longrightarrow> best_ok a b alo ahi blo bhi (extend_right a b ahi bhi best)"
proof (induction a b ahi bhi best rule: extend_right.induct)
  case (1 a b ahi bhi besti bestj bestsize)
  show ?case
  proof (cases "besti + bestsize < ahi \<and> bestj + bestsize < bhi \<and>
         a ! (besti + bestsize) = b ! (bestj + bestsize)")
    case True
    have "a ! (besti + t) = b ! (bestj + t)" if "t < bestsize + 1" for t
    proof (cases "t = bestsize")
      case True
      then show ?thesis using \<open>besti + bestsize < ahi \<and> bestj + bestsize < bhi \<and>
         a ! (besti + bestsize) = b ! (bestj + bestsize)\<close> by simp
    next
      case False
      then have "t < bestsize" using that by simp
      then show ?thesis using "1.prems" by (simp add: best_ok_def)
    qed
    then have m: "\<forall>t<bestsize + 1. a ! (besti + t) = b ! (bestj + t)" by blast
    from "1.prems" have "alo \<le> besti" "blo \<le> bestj" by (simp_all add: best_ok_def)
    then have "alo \<le> besti \<and> blo \<le> bestj \<and>
       (if bestsize + 1 = 0 then besti = alo \<and> bestj = blo
        else besti + (bestsize + 1) \<le> ahi \<and> bestj + (bestsize + 1) \<le> bhi)"
      using True by auto
    with m have "best_ok a b alo ahi blo bhi (besti, bestj, bestsize + 1)"
      unfolding best_ok_def prod.case by blast
    from "1.IH"[OF True this] True show ?thesis
      by (subst extend_right.simps) simp
  next
    case False
    then show ?thesis using "1.prems" by (subst extend_right.simps) auto
  qed
qed

lemma find_longest_match_ok:
  "best_ok a b alo ahi blo bhi (find_longest_match a b alo ahi blo bhi)"
  unfolding find_longest_match_def
  by (intro extend_right_ok extend_left_ok scan_rows_ok) (simp_all add: prev_ok_def best_ok_def)


text \<open>
  The loop of \<^verbatim>\<open>get_matching_blocks\<close>. The queue is a stack: its head here is the last
  element of the Python list, the one \<^verbatim>\<open>queue.pop()\<close> takes.
\<close>

function match_queue :: "string \<Rightarrow> string \<Rightarrow> (nat \<times> nat \<times> nat \<times> nat) list \<Rightarrow>
    (nat \<times> nat \<times> nat) list \<Rightarrow> (nat \<times> nat \<times> nat) list" where
  "match_queue a b [] matching_blocks = matching_blocks"
| "match_queue a b ((alo, ahi, blo, bhi) # queue) matching_blocks =
     (case find_longest_match a b alo ahi blo bhi of (i, j, k) \<Rightarrow>
        if k \<noteq> 0 then
          match_queue a b
            ((if i + k < ahi \<and> j + k < bhi then [(i + k, ahi, j + k, bhi)] else []) @
             (if alo < i \<and> blo < j then [(alo, i, blo, j)] else []) @ queue)
            (matching_blocks @ [(i, j, k)])
        else match_queue a b queue matching_blocks)"
  by pat_completeness auto
termination
proof (relation "measure (\<lambda>(a, b, queue, mb).
    sum_list (map (\<lambda>(alo, ahi, blo, bhi). 2 * (ahi - alo) + 1) queue))", goal_cases)
  case 1
  show ?case by simp
next
  case (2 a b alo ahi blo bhi queue matching_blocks i xa j k)
  from 2 have e: "find_longest_match a b alo ahi blo bhi = (i, j, k)" by simp
  have "best_ok a b alo ahi blo bhi (i, j, k)"
    using find_longest_match_ok[of a b alo ahi blo bhi] by (simp only: e)
  then have "alo \<le> i" "i + k \<le> ahi" using \<open>k \<noteq> 0\<close> by (simp_all add: best_ok_def)
  then show ?case using \<open>k \<noteq> 0\<close> by auto
next
  case 3
  show ?case by simp
qed

declare match_queue.simps [simp del]

text \<open>
  The rest of \<^verbatim>\<open>get_matching_blocks\<close>: the blocks are sorted, adjacent blocks are
  merged, and the dummy block \<open>(la, lb, 0)\<close> is appended.
\<close>

fun merge_adjacent :: "(nat \<times> nat \<times> nat) list \<Rightarrow> nat \<times> nat \<times> nat \<Rightarrow>
    (nat \<times> nat \<times> nat) list \<Rightarrow> (nat \<times> nat \<times> nat) list" where
  "merge_adjacent [] (i1, j1, k1) non_adjacent =
     (if k1 \<noteq> 0 then non_adjacent @ [(i1, j1, k1)] else non_adjacent)"
| "merge_adjacent ((i2, j2, k2) # rest) (i1, j1, k1) non_adjacent =
     (if i1 + k1 = i2 \<and> j1 + k1 = j2 then merge_adjacent rest (i1, j1, k1 + k2) non_adjacent
      else merge_adjacent rest (i2, j2, k2)
             (if k1 \<noteq> 0 then non_adjacent @ [(i1, j1, k1)] else non_adjacent))"

definition get_matching_blocks :: "string \<Rightarrow> string \<Rightarrow> (nat \<times> nat \<times> nat) list" where
  "get_matching_blocks a b =
     (let la = length a; lb = length b;
          matching_blocks = sort (match_queue a b [(0, la, 0, lb)] [])
      in merge_adjacent matching_blocks (0, 0, 0) [] @ [(la, lb, 0)])"

text \<open>\<^verbatim>\<open>_calculate_ratio(matches, length)\<close>.\<close>

definition calculate_ratio :: "nat \<Rightarrow> nat \<Rightarrow> rat" where
  "calculate_ratio matches len = (if len \<noteq> 0 then 2 * of_nat matches / of_nat len else 1)"

definition ratio :: "string \<Rightarrow> string \<Rightarrow> rat" where
  "ratio a b =
     calculate_ratio (sum_list (map (\<lambda>(i, j, k). k) (get_matching_blocks a b)))
       (length a + length b)"

text \<open>\<^verbatim>\<open>quick_ratio\<close>: the count of \<open>b\<close>'s elements, then the loop over \<open>a\<close>.\<close>

definition fullbcount :: "string \<Rightarrow> (char \<rightharpoonup> nat)" where
  "fullbcount b =
     fold (\<lambda>elt m. m(elt \<mapsto> (case m elt of None \<Rightarrow> 0 | Some n \<Rightarrow> n) + 1)) b Map.empty"

fun quick_loop :: "(char \<rightharpoonup> nat) \<Rightarrow> string \<Rightarrow> (char \<rightharpoonup> int) \<Rightarrow> nat \<Rightarrow> nat" where
  "quick_loop fbc [] avail matches = matches"
| "quick_loop fbc (elt # rest) avail matches =
     (let numb = (case avail elt of
                    Some n \<Rightarrow> n
                  | None \<Rightarrow> (case fbc elt of None \<Rightarrow> 0 | Some n \<Rightarrow> int n))
      in quick_loop fbc rest (avail(elt \<mapsto> numb - 1))
           (if numb > 0 then matches + 1 else matches))"

definition quick_ratio :: "string \<Rightarrow> string \<Rightarrow> rat" where
  "quick_ratio a b =
     calculate_ratio (quick_loop (fullbcount b) a Map.empty 0) (length a + length b)"

definition real_quick_ratio :: "string \<Rightarrow> string \<Rightarrow> rat" where
  "real_quick_ratio a b =
     (let la = length a; lb = length b in calculate_ratio (min la lb) (la + lb))"

text \<open>
  \<^verbatim>\<open>heapq.nlargest(1, result)\<close> is \<^verbatim>\<open>max(result)\<close>, or the empty list for no result.
  \<^verbatim>\<open>max\<close> keeps the first of the greatest elements; the elements are pairs
  \<open>(score, x)\<close>, compared as Python tuples: by score, then by the string.
\<close>

fun max_from :: "'a::linorder \<Rightarrow> 'a list \<Rightarrow> 'a" where
  "max_from m [] = m"
| "max_from m (x # xs) = max_from (if x > m then x else m) xs"

definition nlargest1 :: "'a::linorder list \<Rightarrow> 'a list" where
  "nlargest1 xs = (case xs of [] \<Rightarrow> [] | x # rest \<Rightarrow> [max_from x rest])"

text \<open>
  \<^verbatim>\<open>get_close_matches(word, possibilities, n=1, cutoff)\<close>, as \<^verbatim>\<open>build_mapping\<close> calls
  it: \<open>n\<close> is 1, so the test on \<open>n\<close> passes.
\<close>

definition get_close_matches :: "string \<Rightarrow> string list \<Rightarrow> rat \<Rightarrow> py_error + string list" where
  "get_close_matches word possibilities cutoff =
     (if \<not> (0 \<le> cutoff \<and> cutoff \<le> 1) then Inl (ValueError ''cutoff must be in [0.0, 1.0]'')
      else
        let result = map (\<lambda>x. (ratio x word, x))
              (filter (\<lambda>x. real_quick_ratio x word \<ge> cutoff \<and>
                           quick_ratio x word \<ge> cutoff \<and>
                           ratio x word \<ge> cutoff) possibilities)
        in Inr (map snd (nlargest1 result)))"

subsection \<open>The resolver\<close>

datatype match_kind =
    OVERRIDE
  | OVERRIDE_NORMALIZED
  | OVERRIDE_NOT_FOUND
  | DIRECT
  | ALIAS
  | FUZZY
  | MISSING

text \<open>The match type as the source writes it in the third field of a row of \<^verbatim>\<open>details\<close>.\<close>

fun match_type :: "match_kind \<Rightarrow> string" where
  "match_type OVERRIDE = ''OVERRIDE''"
| "match_type OVERRIDE_NORMALIZED = ''OVERRIDE(norm)''"
| "match_type OVERRIDE_NOT_FOUND = ''OVERRIDE-NOTFOUND''"
| "match_type DIRECT = ''DIRECT''"
| "match_type ALIAS = ''ALIAS''"
| "match_type FUZZY = ''FUZZY''"
| "match_type MISSING = ''MISSING''"

type_synonym mapping = "(string \<times> string option) list"
type_synonym details = "(string \<times> string \<times> match_kind) list"

text \<open>\<^verbatim>\<open>atf_norm_map = {norm(c): c for c in atf_cols}\<close>.\<close>

definition atf_norm_map :: "string list \<Rightarrow> (string \<times> string) list" where
  "atf_norm_map atf_cols = fold (\<lambda>c d. dict_set d (norm_key c) c) atf_cols []"

text \<open>The body of the loop over \<^verbatim>\<open>overrides.items()\<close>.\<close>

definition apply_override :: "string list \<Rightarrow> (string \<times> string) list \<Rightarrow>
    string \<times> string \<Rightarrow> mapping \<times> details \<Rightarrow> mapping \<times> details" where
  "apply_override atf_cols norm_map ov st =
     (case ov of (fb_col, atf_src) \<Rightarrow> case st of (mapping, details) \<Rightarrow>
        if atf_src \<in> set atf_cols
        then (dict_set mapping fb_col (Some atf_src), details @ [(fb_col, atf_src, OVERRIDE)])
        else
          let key = norm_key atf_src in
          case map_of norm_map key of
            Some c \<Rightarrow>
              (dict_set mapping fb_col (Some c), details @ [(fb_col, c, OVERRIDE_NORMALIZED)])
          | None \<Rightarrow>
              (dict_set mapping fb_col None, details @ [(fb_col, [], OVERRIDE_NOT_FOUND)]))"

text \<open>
  The inner loop \<^verbatim>\<open>for a in alias_list+[target]\<close>: the first alias whose key is in the
  index gives the hit; without one, \<open>hit\<close> keeps its value.
\<close>

fun first_alias :: "(string \<times> string) list \<Rightarrow> string list \<Rightarrow> string option \<Rightarrow> string option" where
  "first_alias norm_map [] hit = hit"
| "first_alias norm_map (a # as) hit =
     (case map_of norm_map (norm_key a) of
        Some c \<Rightarrow> Some c
      | None \<Rightarrow> first_alias norm_map as hit)"

text \<open>The loop \<^verbatim>\<open>for target, alias_list in ALIASES.items()\<close>, left when \<open>hit\<close> is true.\<close>

fun alias_scan :: "(string \<times> string) list \<Rightarrow> string \<Rightarrow> (string \<times> string list) list \<Rightarrow>
    string option \<Rightarrow> string option" where
  "alias_scan norm_map fb_key [] hit = hit"
| "alias_scan norm_map fb_key ((target, alias_list) # rest) hit =
     (let hit' =
        (if fb_key = target \<or> fb_key \<in> set (map norm_key (alias_list @ [target]))
         then first_alias norm_map (alias_list @ [target]) hit
         else hit)
      in if truthy hit' then hit' else alias_scan norm_map fb_key rest hit')"

text \<open>
  The body of the loop over \<^verbatim>\<open>fb_cols\<close>. \<^verbatim>\<open>atf_norm_map[cand[0]]\<close> raises
  \<^verbatim>\<open>KeyError\<close> for a key that is absent; \<^verbatim>\<open>mapping[fb_col] = hit\<close> stores a string.
\<close>

definition resolve_column :: "(string \<times> string) list \<Rightarrow> rat \<Rightarrow> mapping \<times> details \<Rightarrow> string \<Rightarrow>
    py_error + mapping \<times> details" where
  "resolve_column norm_map fuzzy_cutoff st fb_col =
     (case st of (mapping, details) \<Rightarrow>
        if map_of mapping fb_col \<noteq> None then Inr (mapping, details)
        else
          let fb_key = norm_key fb_col in
          case map_of norm_map fb_key of
            Some c \<Rightarrow> Inr (dict_set mapping fb_col (Some c), details @ [(fb_col, c, DIRECT)])
          | None \<Rightarrow>
              let hit = alias_scan norm_map fb_key ALIASES None in
              if truthy hit
              then Inr (dict_set mapping fb_col hit, details @ [(fb_col, the hit, ALIAS)])
              else
                case get_close_matches fb_key (map fst norm_map) fuzzy_cutoff of
                  Inl e \<Rightarrow> Inl e
                | Inr cand \<Rightarrow>
                    (case cand of
                       c0 # _ \<Rightarrow>
                         (case map_of norm_map c0 of
                            None \<Rightarrow> Inl KeyError
                          | Some c \<Rightarrow>
                              Inr (dict_set mapping fb_col (Some c),
                                   details @ [(fb_col, c, FUZZY)]))
                     | [] \<Rightarrow>
                         Inr (dict_set mapping fb_col None,
                              details @ [(fb_col, [], MISSING)])))"

fun resolve_columns :: "(string \<times> string) list \<Rightarrow> rat \<Rightarrow> mapping \<times> details \<Rightarrow> string list \<Rightarrow>
    py_error + mapping \<times> details" where
  "resolve_columns norm_map fuzzy_cutoff st [] = Inr st"
| "resolve_columns norm_map fuzzy_cutoff st (fb_col # fb_cols) =
     (case resolve_column norm_map fuzzy_cutoff st fb_col of
        Inl e \<Rightarrow> Inl e
      | Inr st' \<Rightarrow> resolve_columns norm_map fuzzy_cutoff st' fb_cols)"

text \<open>
  \<^verbatim>\<open>build_mapping(atf_cols, fb_cols, overrides, fuzzy_cutoff, logger)\<close>. The overrides
  are the items of the dictionary in its order (\<^verbatim>\<open>None\<close> is the empty list); the
  logger only writes a summary line and is left out.
\<close>

definition build_mapping :: "string list \<Rightarrow> string list \<Rightarrow> (string \<times> string) list \<Rightarrow> rat \<Rightarrow>
    py_error + mapping \<times> details" where
  "build_mapping atf_cols fb_cols overrides fuzzy_cutoff =
     (let norm_map = atf_norm_map atf_cols;
          st = fold (apply_override atf_cols norm_map) overrides ([], [])
      in resolve_columns norm_map fuzzy_cutoff st fb_cols)"

subsection \<open>The names of the module\<close>

text \<open>
  The names that the module binds at its top level, by its imports and definitions. A name
  that is neither bound there nor a builtin raises \<^verbatim>\<open>NameError\<close> where it is evaluated.
  The module imports neither \<^verbatim>\<open>sys\<close> nor \<^verbatim>\<open>json\<close>.
\<close>

definition module_globals :: "string list" where
  "module_globals =
     [''argparse'', ''logging'', ''get_close_matches'', ''pd'', ''np'', ''Path'', ''yaml'',
      ''HAS_YAML'', ''norm'', ''ALIASES'', ''read_overrides'', ''build_mapping'', ''main'']"

definition global_name :: "string \<Rightarrow> py_error + unit" where
  "global_name n = (if n \<in> set module_globals then Inr () else Inl (NameError n))"

subsection \<open>The guidance sheet and the exit status\<close>

text \<open>\<^verbatim>\<open>mapping.get(c)\<close>: \<^verbatim>\<open>None\<close> for a key that is absent or holds \<^verbatim>\<open>None\<close>.\<close>

definition mapping_get :: "mapping \<Rightarrow> string \<Rightarrow> string option" where
  "mapping_get mapping c = (case map_of mapping c of None \<Rightarrow> None | Some v \<Rightarrow> v)"

text \<open>\<^verbatim>\<open>missing = [c for c in fb_columns if not mapping.get(c)]\<close>.\<close>

definition missing_columns :: "mapping \<Rightarrow> string list \<Rightarrow> string list" where
  "missing_columns mapping fb_columns = filter (\<lambda>c. \<not> truthy (mapping_get mapping c)) fb_columns"

text \<open>\<^verbatim>\<open>k in key\<close> for two strings.\<close>

fun is_substring :: "string \<Rightarrow> string \<Rightarrow> bool" where
  "is_substring k [] = (k = [])"
| "is_substring k (c # cs) = (prefix k (c # cs) \<or> is_substring k cs)"

text \<open>
  The fourteen tests \<^verbatim>\<open>if any(k in key for k in [...]): hints.append(...)\<close>, in the order
  of the source, as a table of keywords and hint, and the hint for no match. The hints are
  written without their accents and with a hyphen for the dash.
\<close>

definition guidance_rules :: "(string list \<times> string) list" where
  "guidance_rules =
   [([''serial'', ''sn''],
     ''Numero de serie - marcacao na arma / 4473 / registro anterior.''),
    ([''manufacturer'', ''mfr'', ''maker'', ''make''],
     ''Fabricante - marcacao do frame/receiver; nota do fornecedor.''),
    ([''importer''],
     ''Importador - marcacao no cano/frame; invoice de entrada.''),
    ([''model''],
     ''Modelo - marcacao na arma; invoice/packing slip.''),
    ([''caliber'', ''gauge''],
     ''Calibre/ga - gravado no cano/slide; ficha do fabricante.''),
    ([''type''],
     ''Tipo - pistol/revolver/rifle/shotgun/receiver/other.''),
    ([''barrel'', ''length'', ''oal''],
     ''Comprimento de cano/OAL - ficha tecnica; inspecao.''),
    ([''finish'', ''color''],
     ''Acabamento/cor - inspecao / descricao do fabricante.''),
    ([''upc'', ''sku''],
     ''UPC/SKU - caixa do produto; invoice.''),
    ([''acq'', ''acquisition'', ''received'', ''source'', ''supplier'', ''vendor''],
     ''Dados de aquisicao - fornecedor, data, invoice/PO.''),
    ([''dispo'', ''dispose'', ''transferee'', ''customer'', ''buyer'', ''4473''],
     ''Dados de disposicao - cliente/FFL, data, 4473, NICS.''),
    ([''nics'', ''ttn'', ''poc'', ''background''],
     ''Background - NICS/POC (numero/status/expiracao).''),
    ([''ffl'', ''license''],
     ''FFL - no/expiracao do destinatario; copia arquivada.''),
    ([''cost'', ''price'', ''amount'', ''msrp''],
     ''Valores - custo/preco; ERP/nota fiscal.'')]"

definition fallback_hint :: string where
  "fallback_hint = ''Verificar notas de entrada, 4473, copia de FFL e marcacoes fisicas.''"

text \<open>\<^verbatim>\<open>sep.join(xs)\<close>.\<close>

fun join :: "string \<Rightarrow> string list \<Rightarrow> string" where
  "join sep [] = []"
| "join sep [x] = x"
| "join sep (x # y # ys) = x @ sep @ join sep (y # ys)"

text \<open>The hints of one column: \<^verbatim>\<open>key = col.lower()\<close>, then the tests.\<close>

definition hints_for :: "string \<Rightarrow> string list" where
  "hints_for col =
     (let key = str_lower col;
          hints = concat (map (\<lambda>(ks, hint). if list_ex (\<lambda>k. is_substring k key) ks then [hint] else [])
                    guidance_rules)
      in if hints = [] then [fallback_hint] else hints)"

text \<open>The rows of the sheet \<^verbatim>\<open>Missing & Guidance\<close>: column and text.\<close>

definition guidance_rows :: "mapping \<Rightarrow> string list \<Rightarrow> (string \<times> string) list" where
  "guidance_rows mapping fb_columns =
     map (\<lambda>col. (col, join '' | '' (hints_for col))) (missing_columns mapping fb_columns)"

text \<open>\<^verbatim>\<open>missing_count = sum(1 for c in fb_columns if not mapping.get(c))\<close>.\<close>

definition missing_count :: "mapping \<Rightarrow> string list \<Rightarrow> nat" where
  "missing_count mapping fb_columns =
     length (filter (\<lambda>c. \<not> truthy (mapping_get mapping c)) fb_columns)"

text \<open>
  The end of \<^verbatim>\<open>main\<close>. With missing columns and \<^verbatim>\<open>--strict\<close>, the message is printed
  to \<^verbatim>\<open>sys.stderr\<close> and \<^verbatim>\<open>sys.exit(2)\<close> is called; both evaluate the name
  \<^verbatim>\<open>sys\<close>. Otherwise the two lines of the success confirmation are logged and
  \<^verbatim>\<open>main\<close> returns: the result \<open>Inr ()\<close>.
\<close>

definition finish_run :: "bool \<Rightarrow> mapping \<Rightarrow> string list \<Rightarrow> py_error + unit" where
  "finish_run strict mapping fb_columns =
     (if missing_count mapping fb_columns \<noteq> 0 \<and> strict
      then (case global_name ''sys'' of
              Inl e \<Rightarrow> Inl e
            | Inr _ \<Rightarrow> Inl (SystemExit 2))
      else Inr ())"

text \<open>
  The exit status of the interpreter: the argument of \<^verbatim>\<open>sys.exit\<close>, 1 for any other
  exception that nothing catches, 0 when \<^verbatim>\<open>main\<close> returns.
\<close>

fun exit_status :: "py_error + unit \<Rightarrow> nat" where
  "exit_status (Inr _) = 0"
| "exit_status (Inl (SystemExit n)) = n"
| "exit_status (Inl _) = 1"

subsection \<open>The override loader\<close>

text \<open>\<^verbatim>\<open>ch.isspace()\<close> for one code point below 256, and \<^verbatim>\<open>s.strip()\<close>.\<close>

definition isspace :: "char \<Rightarrow> bool" where
  "isspace c = (let n = (of_char c :: nat) in
     (9 \<le> n \<and> n \<le> 13) \<or> (28 \<le> n \<and> n \<le> 32) \<or> n = 133 \<or> n = 160)"

definition strip :: "string \<Rightarrow> string" where
  "strip s = rev (dropWhile isspace (rev (dropWhile isspace s)))"

text \<open>
  The file at the path, as the libraries show it: whether it exists, the suffix of its name,
  the columns and the rows of the table that \<^verbatim>\<open>pd.read_csv\<close> reads (of a row, the
  \<^verbatim>\<open>str\<close> of the two cells that the loader takes), and the items that \<^verbatim>\<open>json.loads\<close>
  and \<^verbatim>\<open>yaml.safe_load\<close> give. Failures inside these libraries are not modelled.
\<close>

record override_file =
  file_exists :: bool
  file_suffix :: string
  csv_columns :: "string list"
  csv_rows :: "(string \<times> string) list"
  json_items :: "(string \<times> string) list"
  yaml_items :: "(string \<times> string) list"

text \<open>
  \<^verbatim>\<open>read_overrides(path)\<close>; \<open>None\<close> is a path that is false (\<^verbatim>\<open>None\<close> or the empty
  string), and \<open>has_yaml\<close> is \<^verbatim>\<open>HAS_YAML\<close>. In a call the function \<^verbatim>\<open>json.loads\<close> is
  evaluated before its argument.
\<close>

definition read_overrides :: "bool \<Rightarrow> override_file option \<Rightarrow> py_error + (string \<times> string) list" where
  "read_overrides has_yaml path =
     (case path of
        None \<Rightarrow> Inr []
      | Some p \<Rightarrow>
          if \<not> file_exists p then Inl FileNotFoundError
          else if str_lower (file_suffix p) = ''.csv'' then
            (if \<not> set [''FastBound Column'', ''ATF Source''] \<subseteq> set (csv_columns p)
             then Inl (ValueError ''CSV de override deve ter colunas FastBound Column e ATF Source.'')
             else Inr (fold (\<lambda>(fb, atf) d. dict_set d (strip fb) (strip atf)) (csv_rows p) []))
          else if str_lower (file_suffix p) \<in> set [''.json''] then
            (case global_name ''json'' of
               Inl e \<Rightarrow> Inl e
             | Inr _ \<Rightarrow> Inr (json_items p))
          else if str_lower (file_suffix p) \<in> set [''.yml'', ''.yaml''] then
            (if \<not> has_yaml then Inl RuntimeError else Inr (yaml_items p))
          else Inl (ValueError ''Formato de override nao suportado. Use CSV, JSON ou YAML.''))"

subsection \<open>Notions for the statements\<close>

text \<open>
  The definitions below are not parts of the program: they name what the statements and
  proofs about it speak of.
\<close>

text \<open>The value that \<^verbatim>\<open>mapping\<close> holds for a row of \<^verbatim>\<open>details\<close>.\<close>

definition row_value :: "string \<times> string \<times> match_kind \<Rightarrow> string \<times> string option" where
  "row_value row = (case row of (c, s, k) \<Rightarrow>
     (c, if k = MISSING \<or> k = OVERRIDE_NOT_FOUND then None else Some s))"

text \<open>The row that one override adds.\<close>

definition override_row :: "string list \<Rightarrow> (string \<times> string) list \<Rightarrow> string \<times> string \<Rightarrow>
    string \<times> string \<times> match_kind" where
  "override_row atf_cols norm_map ov = (case ov of (fb_col, atf_src) \<Rightarrow>
     if atf_src \<in> set atf_cols then (fb_col, atf_src, OVERRIDE)
     else case map_of norm_map (norm_key atf_src) of
            Some c \<Rightarrow> (fb_col, c, OVERRIDE_NORMALIZED)
          | None \<Rightarrow> (fb_col, [], OVERRIDE_NOT_FOUND))"

text \<open>The row that a target column without an entry adds, or the exception.\<close>

definition column_row :: "(string \<times> string) list \<Rightarrow> rat \<Rightarrow> string \<Rightarrow>
    py_error + string \<times> string \<times> match_kind" where
  "column_row norm_map fuzzy_cutoff fb_col =
     (case map_of norm_map (norm_key fb_col) of
        Some c \<Rightarrow> Inr (fb_col, c, DIRECT)
      | None \<Rightarrow>
          if truthy (alias_scan norm_map (norm_key fb_col) ALIASES None)
          then Inr (fb_col, the (alias_scan norm_map (norm_key fb_col) ALIASES None), ALIAS)
          else
            case get_close_matches (norm_key fb_col) (map fst norm_map) fuzzy_cutoff of
              Inl e \<Rightarrow> Inl e
            | Inr [] \<Rightarrow> Inr (fb_col, [], MISSING)
            | Inr (c0 # rest) \<Rightarrow>
                (case map_of norm_map c0 of
                   None \<Rightarrow> Inl KeyError
                 | Some c \<Rightarrow> Inr (fb_col, c, FUZZY)))"

text \<open>The elements of a list in the order of their first occurrence.\<close>

fun first_occurrences :: "'a list \<Rightarrow> 'a list" where
  "first_occurrences [] = []"
| "first_occurrences (x # xs) = x # filter (\<lambda>y. y \<noteq> x) (first_occurrences xs)"


text \<open>Every key that the alias loop compares a target key with.\<close>

definition alias_keys :: "string list" where
  "alias_keys =
     concat (map (\<lambda>(target, alias_list). target # map norm_key (alias_list @ [target])) ALIASES)"

text \<open>
  The text of the guidance for a column in the words of the specification: the hints of
  the rules of which a keyword occurs in the lowercased column name, in the order of the
  rules, joined by the separator; the fallback hint when there is none.
\<close>

definition spec_guidance_text :: "string \<Rightarrow> string" where
  "spec_guidance_text col =
     (let hs = map snd (filter (\<lambda>(ks, h). \<exists>k\<in>set ks. \<exists>p s. str_lower col = p @ k @ s)
                          guidance_rules)
      in if hs = [] then fallback_hint else join '' | '' hs)"





subsection \<open>Facts about dictionaries and the index of source columns\<close>

lemma map_of_dict_set: "map_of (dict_set d k v) = (map_of d)(k \<mapsto> v)"
  by (induction d) (auto simp: fun_eq_iff)

lemma dict_set_new: "k \<notin> fst ` set d \<Longrightarrow> dict_set d k v = d @ [(k, v)]"
  by (induction d) auto

lemma keys_dict_set:
  "map fst (dict_set d k v) = (if k \<in> fst ` set d then map fst d else map fst d @ [k])"
  by (induction d) force+


lemma distinct_dict_set: "distinct (map fst d) \<Longrightarrow> distinct (map fst (dict_set d k v))"
  by (simp add: keys_dict_set)

lemma fold_norm_map_lookup:
  "map_of (fold (\<lambda>c d. dict_set d (norm_key c) c) cols d) k =
     (case filter (\<lambda>x. norm_key x = k) cols of
        [] \<Rightarrow> map_of d k
      | x # xs \<Rightarrow> Some (last (x # xs)))"
proof (induction cols arbitrary: d)
  case Nil
  then show ?case by simp
next
  case (Cons c cols)
  show ?case
    by (simp add: Cons.IH map_of_dict_set split: list.splits)
qed

lemma atf_norm_map_lookup:
  "map_of (atf_norm_map atf_cols) k =
     (if k \<in> norm_key ` set atf_cols
      then Some (last (filter (\<lambda>x. norm_key x = k) atf_cols)) else None)"
proof -
  have "(filter (\<lambda>x. norm_key x = k) atf_cols = []) = (k \<notin> norm_key ` set atf_cols)"
    by (auto simp: filter_empty_conv)
  then show ?thesis
    unfolding atf_norm_map_def fold_norm_map_lookup
    by (auto split: list.splits)
qed

lemma atf_norm_map_Some:
  assumes "map_of (atf_norm_map atf_cols) k = Some c"
  shows "c \<in> set atf_cols \<and> norm_key c = k \<and> c = last (filter (\<lambda>x. norm_key x = norm_key c) atf_cols)"
proof -
  from assms have k: "k \<in> norm_key ` set atf_cols"
    and c: "c = last (filter (\<lambda>x. norm_key x = k) atf_cols)"
    by (auto simp: atf_norm_map_lookup split: if_splits)
  from k have ne: "filter (\<lambda>x. norm_key x = k) atf_cols \<noteq> []"
    by (auto simp: filter_empty_conv)
  from last_in_set[OF ne] c have "c \<in> set (filter (\<lambda>x. norm_key x = k) atf_cols)" by simp
  then have "c \<in> set atf_cols" "norm_key c = k" by simp_all
  with c show ?thesis by simp
qed



lemma map_of_keys: "k \<in> set (map fst d) \<Longrightarrow> map_of d k \<noteq> None"
  by (induction d) auto


subsection \<open>The shape of the resolver's result\<close>

lemma fst_row_value: "fst (row_value row) = fst row"
  by (simp add: row_value_def split: prod.splits)

lemma keys_row_values: "map fst (map row_value d) = map fst d"
  by (simp add: fst_row_value)

lemma fst_override_row: "fst (override_row atf_cols norm_map ov) = fst ov"
  by (simp add: override_row_def split: prod.splits option.splits)

lemma fst_column_row: "column_row norm_map cutoff c = Inr row \<Longrightarrow> fst row = c"
  by (auto simp: column_row_def split: option.splits if_splits sum.splits list.splits)

lemma truthy_the: "truthy h \<Longrightarrow> h = Some (the h) \<and> the h \<noteq> []"
  by (cases h) simp_all

lemma apply_override_row:
  assumes "fst ov \<notin> fst ` set d"
  shows "apply_override atf_cols norm_map ov (map row_value d, d) =
     (map row_value (d @ [override_row atf_cols norm_map ov]),
      d @ [override_row atf_cols norm_map ov])"
proof -
  obtain fb_col atf_src where ov: "ov = (fb_col, atf_src)" by (cases ov)
  have new: "dict_set (map row_value d) fb_col v = map row_value d @ [(fb_col, v)]" for v
    using assms ov by (intro dict_set_new) (simp add: image_image fst_row_value)
  show ?thesis
    unfolding apply_override_def override_row_def ov
    by (simp add: new row_value_def Let_def split: option.splits)
qed

lemma fold_apply_override:
  assumes "distinct (map fst d @ map fst overrides)"
  shows "fold (apply_override atf_cols norm_map) overrides (map row_value d, d) =
     (map row_value (d @ map (override_row atf_cols norm_map) overrides),
      d @ map (override_row atf_cols norm_map) overrides)"
  using assms
proof (induction overrides arbitrary: d)
  case Nil
  then show ?case by simp
next
  case (Cons ov overrides)
  from Cons.prems have n: "fst ov \<notin> fst ` set d" by auto
  have "distinct (map fst (d @ [override_row atf_cols norm_map ov]) @ map fst overrides)"
    using Cons.prems by (auto simp: fst_override_row)
  from Cons.IH[OF this] show ?case
    by (simp add: apply_override_row[OF n])
qed

lemma resolve_column_row:
  "resolve_column norm_map cutoff (map row_value d, d) c =
     (if c \<in> fst ` set d then Inr (map row_value d, d)
      else case column_row norm_map cutoff c of
             Inl e \<Rightarrow> Inl e
           | Inr row \<Rightarrow> Inr (map row_value (d @ [row]), d @ [row]))"
proof (cases "c \<in> fst ` set d")
  case True
  then have "c \<in> set (map fst (map row_value d))" by (simp add: image_image fst_row_value)
  from map_of_keys[OF this] True show ?thesis
    by (simp add: resolve_column_def)
next
  case False
  then have "c \<notin> fst ` set (map row_value d)"
    using keys_row_values[of d] by (metis list.set_map)
  then have none: "map_of (map row_value d) c = None"
    by (simp add: map_of_eq_None_iff)
  have new: "dict_set (map row_value d) c v = map row_value d @ [(c, v)]" for v
    using \<open>c \<notin> fst ` set (map row_value d)\<close> by (rule dict_set_new)
  show ?thesis
    using False truthy_the[of "alias_scan norm_map (norm_key c) ALIASES None"]
    by (auto simp: resolve_column_def column_row_def none new row_value_def Let_def
        split: option.splits sum.splits list.splits)
qed

lemma resolve_columns_rows:
  assumes "resolve_columns norm_map cutoff (map row_value d, d) cs = Inr (m', d')"
  shows "m' = map row_value d' \<and>
     (\<exists>rows. d' = d @ rows \<and>
        map fst rows = filter (\<lambda>c. c \<notin> fst ` set d) (first_occurrences cs) \<and>
        (\<forall>row\<in>set rows. column_row norm_map cutoff (fst row) = Inr row))"
  using assms
proof (induction cs arbitrary: d)
  case Nil
  then show ?case by auto
next
  case (Cons c cs)
  show ?case
  proof (cases "c \<in> fst ` set d")
    case True
    with Cons.prems have "resolve_columns norm_map cutoff (map row_value d, d) cs = Inr (m', d')"
      by (simp add: resolve_column_row)
    from Cons.IH[OF this] obtain rows where r: "m' = map row_value d'" "d' = d @ rows"
      "map fst rows = filter (\<lambda>c. c \<notin> fst ` set d) (first_occurrences cs)"
      "\<forall>row\<in>set rows. column_row norm_map cutoff (fst row) = Inr row"
      by blast
    have "filter (\<lambda>x. x \<notin> fst ` set d) (filter (\<lambda>y. y \<noteq> c) (first_occurrences cs)) =
        filter (\<lambda>x. x \<notin> fst ` set d) (first_occurrences cs)"
      using True by (auto intro: filter_cong)
    with r True show ?thesis by auto
  next
    case False
    with Cons.prems obtain row where row: "column_row norm_map cutoff c = Inr row"
      and rest: "resolve_columns norm_map cutoff (map row_value (d @ [row]), d @ [row]) cs = Inr (m', d')"
      by (auto simp: resolve_column_row split: sum.splits)
    from fst_column_row[OF row] have fr: "fst row = c" .
    from Cons.IH[OF rest] obtain rows where r: "m' = map row_value d'" "d' = (d @ [row]) @ rows"
      "map fst rows = filter (\<lambda>x. x \<notin> fst ` set (d @ [row])) (first_occurrences cs)"
      "\<forall>row\<in>set rows. column_row norm_map cutoff (fst row) = Inr row"
      by blast
    have "filter (\<lambda>x. x \<notin> fst ` set (d @ [row])) (first_occurrences cs) =
        filter (\<lambda>x. x \<notin> fst ` set d) (filter (\<lambda>y. y \<noteq> c) (first_occurrences cs))"
      using fr by (auto intro: filter_cong)
    with r(3) have "map fst (row # rows) =
        filter (\<lambda>x. x \<notin> fst ` set d) (first_occurrences (c # cs))"
      using False fr by simp
    moreover have "\<forall>r\<in>set (row # rows). column_row norm_map cutoff (fst r) = Inr r"
      using r(4) row fr by simp
    moreover have "d' = d @ (row # rows)" using r(2) by simp
    ultimately show ?thesis using r(1) by blast
  qed
qed

text \<open>The result of \<open>build_mapping\<close>, when it returns.\<close>

lemma build_mapping_rows:
  assumes "build_mapping atf_cols fb_cols overrides cutoff = Inr (mapping, details)"
    and "distinct (map fst overrides)"
  shows "mapping = map row_value details \<and>
     (\<exists>rows. details = map (override_row atf_cols (atf_norm_map atf_cols)) overrides @ rows \<and>
        map fst rows =
          filter (\<lambda>c. c \<notin> fst ` set overrides) (first_occurrences fb_cols) \<and>
        (\<forall>row\<in>set rows. column_row (atf_norm_map atf_cols) cutoff (fst row) = Inr row))"
proof -
  let ?nm = "atf_norm_map atf_cols"
  let ?d = "map (override_row atf_cols ?nm) overrides"
  have "fold (apply_override atf_cols ?nm) overrides (map row_value [], []) =
      (map row_value ([] @ ?d), [] @ ?d)"
    using assms(2) by (intro fold_apply_override) simp
  then have "resolve_columns ?nm cutoff (map row_value ?d, ?d) fb_cols = Inr (mapping, details)"
    using assms(1) by (simp add: build_mapping_def Let_def)
  from resolve_columns_rows[OF this]
  have r: "mapping = map row_value details \<and>
     (\<exists>rows. details = ?d @ rows \<and>
        map fst rows = filter (\<lambda>c. c \<notin> fst ` set ?d) (first_occurrences fb_cols) \<and>
        (\<forall>row\<in>set rows. column_row ?nm cutoff (fst row) = Inr row))" .
  have "fst ` set ?d = fst ` set overrides"
    by (simp add: image_image fst_override_row)
  with r show ?thesis by simp
qed

subsection \<open>Facts about the normaliser\<close>









subsection \<open>Facts about the choice of the closest match\<close>





lemma get_close_matches_error:
  "\<not> (0 \<le> cutoff \<and> cutoff \<le> 1) \<Longrightarrow>
     get_close_matches word ps cutoff = Inl (ValueError ''cutoff must be in [0.0, 1.0]'')"
  by (simp add: get_close_matches_def)

subsection \<open>Facts about the rows\<close>

lemma set_first_occurrences: "set (first_occurrences xs) = set xs"
  by (induction xs) auto

lemma distinct_first_occurrences: "distinct (first_occurrences xs)"
  by (induction xs) (auto simp: set_first_occurrences)


lemma first_alias_source:
  "first_alias norm_map as hit = Some s \<Longrightarrow>
     hit = Some s \<or> (\<exists>a\<in>set as. map_of norm_map (norm_key a) = Some s)"
  by (induction as) (auto split: option.splits)

lemma alias_scan_source:
  "alias_scan norm_map fb_key groups hit = Some s \<Longrightarrow>
     hit = Some s \<or> (\<exists>key. map_of norm_map key = Some s)"
proof (induction groups arbitrary: hit)
  case Nil
  then show ?case by simp
next
  case (Cons g groups)
  obtain target alias_list where g: "g = (target, alias_list)" by (cases g)
  define hit' where "hit' =
        (if fb_key = target \<or> fb_key \<in> set (map norm_key (alias_list @ [target]))
         then first_alias norm_map (alias_list @ [target]) hit
         else hit)"
  have h: "hit' = Some s \<Longrightarrow> hit = Some s \<or> (\<exists>key. map_of norm_map key = Some s)"
    unfolding hit'_def using first_alias_source[of norm_map "alias_list @ [target]" hit s]
    by (auto split: if_splits)
  have "alias_scan norm_map fb_key (g # groups) hit =
      (if truthy hit' then hit' else alias_scan norm_map fb_key groups hit')"
    unfolding g hit'_def by (simp add: Let_def)
  with Cons.prems have "(truthy hit' \<and> hit' = Some s) \<or>
      alias_scan norm_map fb_key groups hit' = Some s"
    by (auto split: if_splits)
  then show ?case using h Cons.IH[of hit'] by blast
qed

text \<open>What a row of an override says.\<close>

lemma override_row_cases:
  assumes "override_row atf_cols norm_map (fb_col, atf_src) = (c, s, k)"
  shows "c = fb_col \<and>
     ((k = OVERRIDE \<and> atf_src \<in> set atf_cols \<and> s = atf_src) \<or>
      (k = OVERRIDE_NORMALIZED \<and> atf_src \<notin> set atf_cols \<and>
         map_of norm_map (norm_key atf_src) = Some s) \<or>
      (k = OVERRIDE_NOT_FOUND \<and> atf_src \<notin> set atf_cols \<and>
         map_of norm_map (norm_key atf_src) = None \<and> s = []))"
  using assms by (auto simp: override_row_def split: if_splits option.splits)

text \<open>What a row of a target column without an override says.\<close>

lemma column_row_cases:
  assumes "column_row norm_map cutoff fb_col = Inr (c, s, k)"
  shows "c = fb_col \<and>
     ((k = DIRECT \<and> map_of norm_map (norm_key fb_col) = Some s) \<or>
      (k = ALIAS \<and> map_of norm_map (norm_key fb_col) = None \<and> s \<noteq> [] \<and>
         alias_scan norm_map (norm_key fb_col) ALIASES None = Some s) \<or>
      (k = FUZZY \<and> map_of norm_map (norm_key fb_col) = None \<and>
         \<not> truthy (alias_scan norm_map (norm_key fb_col) ALIASES None) \<and>
         (\<exists>c0 rest. get_close_matches (norm_key fb_col) (map fst norm_map) cutoff = Inr (c0 # rest) \<and>
            map_of norm_map c0 = Some s)) \<or>
      (k = MISSING \<and> map_of norm_map (norm_key fb_col) = None \<and> s = [] \<and>
         \<not> truthy (alias_scan norm_map (norm_key fb_col) ALIASES None) \<and>
         get_close_matches (norm_key fb_col) (map fst norm_map) cutoff = Inr []))"
proof (cases "map_of norm_map (norm_key fb_col)")
  case (Some x)
  with assms show ?thesis by (simp add: column_row_def)
next
  case None
  show ?thesis
  proof (cases "truthy (alias_scan norm_map (norm_key fb_col) ALIASES None)")
    case True
    from truthy_the[OF True] assms None True show ?thesis
      by (auto simp: column_row_def)
  next
    case False
    with assms None show ?thesis
      by (auto simp: column_row_def split: sum.splits list.splits option.splits)
  qed
qed


lemma column_row_indexed:
  assumes "column_row norm_map cutoff fb_col = Inr (c, s, k)" "k \<noteq> MISSING"
  shows "\<exists>key. map_of norm_map key = Some s"
proof -
  from column_row_cases[OF assms(1)] assms(2)
  consider "map_of norm_map (norm_key fb_col) = Some s"
    | "alias_scan norm_map (norm_key fb_col) ALIASES None = Some s"
    | "\<exists>c0. map_of norm_map c0 = Some s"
    by blast
  then show ?thesis
  proof cases
    case 1
    then show ?thesis by blast
  next
    case 2
    from alias_scan_source[OF 2] show ?thesis by simp
  next
    case 3
    then show ?thesis .
  qed
qed

text \<open>Every row of the result, with what it says.\<close>

lemma build_mapping_row:
  assumes "build_mapping atf_cols fb_cols overrides cutoff = Inr (mapping, details)"
    and "distinct (map fst overrides)"
    and "(c, s, k) \<in> set details"
  shows "(\<exists>atf_src. (c, atf_src) \<in> set overrides \<and>
            override_row atf_cols (atf_norm_map atf_cols) (c, atf_src) = (c, s, k)) \<or>
         (c \<notin> fst ` set overrides \<and> c \<in> set fb_cols \<and>
            column_row (atf_norm_map atf_cols) cutoff c = Inr (c, s, k))"
proof -
  from build_mapping_rows[OF assms(1,2)] obtain rows where
    d: "details = map (override_row atf_cols (atf_norm_map atf_cols)) overrides @ rows"
    and f: "map fst rows = filter (\<lambda>c. c \<notin> fst ` set overrides) (first_occurrences fb_cols)"
    and r: "\<forall>row\<in>set rows. column_row (atf_norm_map atf_cols) cutoff (fst row) = Inr row"
    by blast
  from assms(3) d consider
    "(c, s, k) \<in> set (map (override_row atf_cols (atf_norm_map atf_cols)) overrides)"
    | "(c, s, k) \<in> set rows" by auto
  then show ?thesis
  proof cases
    case 1
    then obtain ov where ov: "ov \<in> set overrides"
      "override_row atf_cols (atf_norm_map atf_cols) ov = (c, s, k)" by auto
    from fst_override_row[of atf_cols "atf_norm_map atf_cols" ov] ov(2) have "fst ov = c" by simp
    then obtain atf_src where "ov = (c, atf_src)" by (cases ov) simp
    with ov show ?thesis by blast
  next
    case 2
    with r have cr: "column_row (atf_norm_map atf_cols) cutoff c = Inr (c, s, k)" by fastforce
    from 2 have "c \<in> set (map fst rows)" by force
    with f have "c \<notin> fst ` set overrides" "c \<in> set fb_cols"
      by (simp_all add: set_first_occurrences)
    with cr show ?thesis by blast
  qed
qed

lemma build_mapping_keys:
  assumes "build_mapping atf_cols fb_cols overrides cutoff = Inr (mapping, details)"
    and "distinct (map fst overrides)"
  shows "map fst details =
       map fst overrides @ filter (\<lambda>c. c \<notin> fst ` set overrides) (first_occurrences fb_cols)"
    and "map fst mapping = map fst details"
    and "distinct (map fst details)"
proof -
  from build_mapping_rows[OF assms] obtain rows where
    m: "mapping = map row_value details"
    and d: "details = map (override_row atf_cols (atf_norm_map atf_cols)) overrides @ rows"
    and f: "map fst rows = filter (\<lambda>c. c \<notin> fst ` set overrides) (first_occurrences fb_cols)"
    by blast
  have o: "map fst (map (override_row atf_cols (atf_norm_map atf_cols)) overrides) = map fst overrides"
    by (simp add: fst_override_row)
  show k: "map fst details =
       map fst overrides @ filter (\<lambda>c. c \<notin> fst ` set overrides) (first_occurrences fb_cols)"
    unfolding d using o f by simp
  show "map fst mapping = map fst details" unfolding m by (rule keys_row_values)
  show "distinct (map fst details)"
    unfolding k using assms(2) distinct_first_occurrences[of fb_cols] by auto
qed

subsection \<open>Target columns outside the alias table\<close>

lemma alias_keys_value:
  "alias_keys =
    [''serialnumber'', ''serial'', ''serialnumber'', ''sn'', ''sn'', ''serialnumber'',
     ''manufacturer'', ''manufacturer'', ''maker'', ''make'', ''manufacturer'', ''importer'',
     ''importer'', ''importer'', ''model'', ''model'', ''mdl'', ''model'', ''type'', ''type'',
     ''firearmtype'', ''guntype'', ''type'', ''caliber'', ''caliber'', ''calibre'', ''gauge'',
     ''caliber'', ''barrellength'', ''barrellength'', ''barrel'', ''bbl'', ''lengthofbarrel'',
     ''barrellengthin'', ''barrellength'', ''overalllength'', ''overalllength'', ''oal'',
     ''overalllength'', ''finish'', ''finish'', ''color'', ''colour'', ''finish'',
     ''countryofmanufacture'', ''countryofmanufacture'', ''country'', ''manufacturecountry'',
     ''countryofmanufacture'', ''upc'', ''upc'', ''barcode'', ''upc'', ''sku'', ''sku'',
     ''item'', ''itemnumber'', ''pn'', ''partnumber'', ''sku'', ''acquisitiondate'',
     ''acquisitiondate'', ''dateacquired'', ''dateofacquisition'', ''receiveddate'',
     ''acquisitiondate'', ''acquiredfromname'', ''acquiredfromname'', ''supplier'', ''vendor'',
     ''acquiredfrom'', ''acquiredfromname'', ''acquiredfromaddress'', ''acquiredfromaddress'',
     ''supplieraddress'', ''vendoraddress'', ''acquiredfromaddress'', ''acquiredfromffl'',
     ''acquiredfromffl'', ''supplierffl'', ''vendorffl'', ''ffl'', ''acquiredfromffl'',
     ''acquiredfromlicensetype'', ''acquiredfromlicensetype'', ''supplierlicensetype'',
     ''acquiredfromlicensetype'', ''acquiredfromcity'', ''acquiredfromcity'', ''suppliercity'',
     ''acquiredfromcity'', ''acquiredfromstate'', ''acquiredfromstate'', ''supplierstate'',
     ''acquiredfromstate'', ''acquiredfromzip'', ''acquiredfromzip'', ''supplierzip'',
     ''zipcode'', ''zip'', ''acquiredfromzip'', ''acquisitiondocument'',
     ''acquisitiondocument'', ''invoice'', ''ponumber'', ''po'', ''bo'',
     ''acquisitiondocument'', ''dispositiondate'', ''dispositiondate'', ''dateofdisposition'',
     ''datesold'', ''transferdate'', ''disposeddate'', ''dispositiondate'', ''disposedtoname'',
     ''disposedtoname'', ''customername'', ''buyername'', ''transfereename'',
     ''disposedtoname'', ''disposedtoaddress'', ''disposedtoaddress'', ''customeraddress'',
     ''buyeraddress'', ''disposedtoaddress'', ''disposedtocity'', ''disposedtocity'',
     ''customercity'', ''disposedtocity'', ''disposedtostate'', ''disposedtostate'',
     ''customerstate'', ''disposedtostate'', ''disposedtozip'', ''disposedtozip'',
     ''customerzip'', ''zip'', ''disposedtozip'', ''disposedtoffl'', ''disposedtoffl'',
     ''destinationffl'', ''receiverffl'', ''ffl'', ''disposedtoffl'', ''form4473'', ''4473'',
     ''form4473'', ''4473number'', ''4473'', ''form4473'', ''nicsnumber'', ''nicsnumber'',
     ''nics'', ''ntn'', ''backgroundchecknumber'', ''nicsnumber'', ''nicsstatus'',
     ''nicsstatus'', ''backgroundstatus'', ''status'', ''nicsstatus'', ''nicsexpiration'',
     ''nicsexpiration'', ''nicsvaliduntil'', ''ntnexpire'', ''nicsexpiration'',
     ''transactionnumber'', ''transactionnumber'', ''trans'', ''ttn'', ''ntn'',
     ''transactionnumber'', ''permitnumber'', ''permit'', ''permitnumber'', ''cwfl'', ''ccw'',
     ''permitnumber'', ''permitexpiration'', ''permitexpiration'', ''permitexpires'',
     ''permitexpiration'', ''birthdate'', ''dob'', ''dateofbirth'', ''birthdate'',
     ''birthdate'', ''idnumber'', ''idnumber'', ''driverlicense'', ''dl'',
     ''identificationnumber'', ''idnumber'', ''idstate'', ''idstate'', ''dlstate'',
     ''idstate'', ''cost'', ''cost'', ''unitcost'', ''cost'', ''price'', ''price'',
     ''saleprice'', ''sellingprice'', ''amount'', ''price'']"
  by code_simp

lemma alias_scan_miss:
  assumes "fb_key \<notin> set (concat (map (\<lambda>(target, alias_list).
      target # map norm_key (alias_list @ [target])) groups))"
  shows "alias_scan norm_map fb_key groups hit = hit"
  using assms
proof (induction groups arbitrary: hit)
  case Nil
  then show ?case by simp
next
  case (Cons g groups)
  obtain target alias_list where g: "g = (target, alias_list)" by (cases g)
  from Cons.prems g have n: "fb_key \<noteq> target" "fb_key \<notin> set (map norm_key (alias_list @ [target]))"
    and r: "fb_key \<notin> set (concat (map (\<lambda>(target, alias_list).
      target # map norm_key (alias_list @ [target])) groups))"
    by auto
  from n Cons.IH[OF r, of hit] show ?case
    unfolding g by (simp add: Let_def del: set_append map_append)
qed

lemma alias_scan_outside:
  "fb_key \<notin> set alias_keys \<Longrightarrow> alias_scan norm_map fb_key ALIASES None = None"
  unfolding alias_keys_def by (rule alias_scan_miss)



subsection \<open>Facts about keys\<close>

lemma filter_key_single:
  "distinct (map fst xs) \<Longrightarrow> (k, v) \<in> set xs \<Longrightarrow> filter (\<lambda>p. fst p = k) xs = [(k, v)]"
proof (induction xs)
  case Nil
  then show ?case by simp
next
  case (Cons p xs)
  show ?case
  proof (cases "fst p = k")
    case True
    from True Cons.prems(1) have n: "k \<notin> fst ` set xs" by auto
    then have "(k, v) \<notin> set xs" by force
    with Cons.prems(2) have "p = (k, v)" by simp
    moreover have "filter (\<lambda>p. fst p = k) xs = []"
      using n by (auto simp: filter_empty_conv)
    ultimately show ?thesis by simp
  next
    case False
    with Cons show ?thesis by auto
  qed
qed

lemma map_of_row_values:
  assumes "distinct (map fst details)" "(c, s, k) \<in> set details"
  shows "map_of (map row_value details) c =
     Some (if k = MISSING \<or> k = OVERRIDE_NOT_FOUND then None else Some s)"
proof -
  have "distinct (map fst (map row_value details))"
    using assms(1) by (simp only: keys_row_values)
  moreover have "(c, if k = MISSING \<or> k = OVERRIDE_NOT_FOUND then None else Some s)
      \<in> set (map row_value details)"
    using assms(2) by (force simp: row_value_def)
  ultimately show ?thesis by (rule map_of_is_SomeI)
qed

subsection \<open>Returning, and the columns with a row\<close>







subsection \<open>Facts about the guidance sheet\<close>

lemma is_substring_iff: "is_substring k key \<longleftrightarrow> (\<exists>p s. key = p @ k @ s)"
proof (induction key)
  case Nil
  then show ?case by simp
next
  case (Cons c cs)
  have "(\<exists>p s. c # cs = p @ k @ s) \<longleftrightarrow> (\<exists>s. c # cs = k @ s) \<or> (\<exists>p s. cs = p @ k @ s)"
  proof
    assume "\<exists>p s. c # cs = p @ k @ s"
    then obtain p s where e: "c # cs = p @ k @ s" by blast
    show "(\<exists>s. c # cs = k @ s) \<or> (\<exists>p s. cs = p @ k @ s)"
    proof (cases p)
      case Nil
      with e show ?thesis by auto
    next
      case (Cons x p')
      with e have "cs = p' @ k @ s" by simp
      then show ?thesis by blast
    qed
  next
    assume "(\<exists>s. c # cs = k @ s) \<or> (\<exists>p s. cs = p @ k @ s)"
    then show "\<exists>p s. c # cs = p @ k @ s"
    proof
      assume "\<exists>s. c # cs = k @ s"
      then obtain s where "c # cs = [] @ k @ s" by auto
      then show ?thesis by blast
    next
      assume "\<exists>p s. cs = p @ k @ s"
      then obtain p s where "c # cs = (c # p) @ k @ s" by auto
      then show ?thesis by blast
    qed
  qed
  with Cons show ?case by (simp add: prefix_def)
qed

text \<open>The value of the mapping for the column of a row, and the source of the row.\<close>

lemma build_mapping_row_value:
  assumes "build_mapping atf_cols fb_cols overrides cutoff = Inr (mapping, details)"
    and "distinct (map fst overrides)"
    and mem: "(c, s, k) \<in> set details"
  shows "map_of mapping c = Some (if k = MISSING \<or> k = OVERRIDE_NOT_FOUND then None else Some s)"
    and "k = MISSING \<or> k = OVERRIDE_NOT_FOUND \<Longrightarrow> s = []"
    and "\<not> (k = MISSING \<or> k = OVERRIDE_NOT_FOUND) \<Longrightarrow> s \<in> set atf_cols"
proof -
  let ?nm = "atf_norm_map atf_cols"
  note keys = build_mapping_keys[OF assms(1,2)]
  from build_mapping_rows[OF assms(1,2)] have m: "mapping = map row_value details" by blast
  show "map_of mapping c = Some (if k = MISSING \<or> k = OVERRIDE_NOT_FOUND then None else Some s)"
    unfolding m by (rule map_of_row_values[OF keys(3) mem])
  show "s = []" if "k = MISSING \<or> k = OVERRIDE_NOT_FOUND"
    using build_mapping_row[OF assms(1,2) mem]
  proof
    assume "\<exists>atf_src. (c, atf_src) \<in> set overrides \<and>
        override_row atf_cols ?nm (c, atf_src) = (c, s, k)"
    then obtain atf_src where "override_row atf_cols ?nm (c, atf_src) = (c, s, k)" by blast
    from override_row_cases[OF this] that show ?thesis by auto
  next
    assume "c \<notin> fst ` set overrides \<and> c \<in> set fb_cols \<and> column_row ?nm cutoff c = Inr (c, s, k)"
    then have "column_row ?nm cutoff c = Inr (c, s, k)" by simp
    from column_row_cases[OF this] that show ?thesis by auto
  qed
  show "s \<in> set atf_cols" if n: "\<not> (k = MISSING \<or> k = OVERRIDE_NOT_FOUND)"
    using build_mapping_row[OF assms(1,2) mem]
  proof
    assume "\<exists>atf_src. (c, atf_src) \<in> set overrides \<and>
        override_row atf_cols ?nm (c, atf_src) = (c, s, k)"
    then obtain atf_src where "override_row atf_cols ?nm (c, atf_src) = (c, s, k)" by blast
    from override_row_cases[OF this] n atf_norm_map_Some[of atf_cols "norm_key atf_src" s]
    show ?thesis by auto
  next
    assume "c \<notin> fst ` set overrides \<and> c \<in> set fb_cols \<and> column_row ?nm cutoff c = Inr (c, s, k)"
    then have cr: "column_row ?nm cutoff c = Inr (c, s, k)" by simp
    from n have "k \<noteq> MISSING" by simp
    from column_row_indexed[OF cr this] obtain key where "map_of ?nm key = Some s" ..
    from atf_norm_map_Some[OF this] show ?thesis by simp
  qed
qed

lemma join_hints_for: "join '' | '' (hints_for col) = spec_guidance_text col"
proof -
  have g: "concat (map (\<lambda>(ks, hint). if P ks then [hint] else []) rules) =
      map snd (filter (\<lambda>(ks, h). P ks) rules)"
    for P :: "string list \<Rightarrow> bool" and rules :: "(string list \<times> string) list"
    by (induction rules) auto
  have p: "list_ex (\<lambda>k. is_substring k key) ks = (\<exists>k\<in>set ks. \<exists>p s. key = p @ k @ s)"
    for key :: string and ks
    by (simp add: list_ex_iff is_substring_iff)
  show ?thesis
    unfolding hints_for_def spec_guidance_text_def Let_def p g by simp
qed

lemma unique_row:
  assumes "distinct (map fst details)" "(c, s, k) \<in> set details" "(c, s', k') \<in> set details"
  shows "s' = s \<and> k' = k"
proof -
  from assms(2,3) have "(c, (s, k)) \<in> set details" "(c, (s', k')) \<in> set details" by simp_all
  from eq_key_imp_eq_value[OF assms(1) this] show ?thesis by simp
qed

subsection \<open>The quick ratios bound the ratio\<close>






















subsection \<open>Facts about the exit status and the override loader\<close>

text \<open>The run never ends with the status 2.\<close>

lemma finish_run_status:
  "exit_status (finish_run strict mapping fb_columns) =
     (if missing_count mapping fb_columns \<noteq> 0 \<and> strict then 1 else 0)"
  by (simp add: finish_run_def global_name_def module_globals_def)

lemma finish_run_success:
  "finish_run strict mapping fb_columns = Inr () \<longleftrightarrow>
     \<not> (missing_count mapping fb_columns \<noteq> 0 \<and> strict)"
  by (simp add: finish_run_def global_name_def module_globals_def)

text \<open>The branches of the loader other than the one for JSON.\<close>

lemma read_overrides_no_path: "read_overrides has_yaml None = Inr []"
  by (simp add: read_overrides_def)

lemma read_overrides_csv:
  assumes "file_exists p" "str_lower (file_suffix p) = ''.csv''"
  shows "read_overrides has_yaml (Some p) =
     (if set [''FastBound Column'', ''ATF Source''] \<subseteq> set (csv_columns p)
      then Inr (fold (\<lambda>(fb, atf) d. dict_set d (strip fb) (strip atf)) (csv_rows p) [])
      else Inl (ValueError ''CSV de override deve ter colunas FastBound Column e ATF Source.''))"
  using assms by (simp add: read_overrides_def)

lemma read_overrides_yaml:
  assumes "file_exists p" "str_lower (file_suffix p) = ''.yml'' \<or> str_lower (file_suffix p) = ''.yaml''"
  shows "read_overrides has_yaml (Some p) =
     (if has_yaml then Inr (yaml_items p) else Inl RuntimeError)"
  using assms by (auto simp: read_overrides_def)

lemma read_overrides_unsupported:
  assumes "file_exists p"
    and "str_lower (file_suffix p) \<notin> set [''.csv'', ''.json'', ''.yml'', ''.yaml'']"
  shows "read_overrides has_yaml (Some p) =
     Inl (ValueError ''Formato de override nao suportado. Use CSV, JSON ou YAML.'')"
  using assms by (simp add: read_overrides_def)

lemma read_overrides_json:
  assumes "file_exists p" "str_lower (file_suffix p) = ''.json''"
  shows "read_overrides has_yaml (Some p) = Inl (NameError ''json'')"
  using assms by (simp add: read_overrides_def global_name_def module_globals_def)

section \<open>The claims\<close>






text \<open>
  C2. A target column that is a key of the overrides has exactly one row in the trace, and
  its match kind is one of \<open>OVERRIDE\<close>, \<open>OVERRIDE_NORMALIZED\<close>, \<open>OVERRIDE_NOT_FOUND\<close>:
  the direct, alias and fuzzy stages add no row for it. The kind is \<open>OVERRIDE\<close> exactly
  when the reference is a source column, and \<open>OVERRIDE_NOT_FOUND\<close> exactly when the
  reference is no source column and its key is not in the index; such a column is left
  without a source.
\<close>

theorem override_priority:
  assumes "build_mapping atf_cols fb_cols overrides cutoff = Inr (mapping, details)"
    and "distinct (map fst overrides)"
    and "(fb_col, atf_src) \<in> set overrides"
  shows "\<exists>s k. filter (\<lambda>row. fst row = fb_col) details = [(fb_col, s, k)] \<and>
     (k = OVERRIDE \<or> k = OVERRIDE_NORMALIZED \<or> k = OVERRIDE_NOT_FOUND) \<and>
     (k = OVERRIDE \<longleftrightarrow> atf_src \<in> set atf_cols) \<and>
     (k = OVERRIDE \<longrightarrow> s = atf_src) \<and>
     (k = OVERRIDE_NOT_FOUND \<longleftrightarrow>
        atf_src \<notin> set atf_cols \<and> norm_key atf_src \<notin> norm_key ` set atf_cols) \<and>
     (k = OVERRIDE_NOT_FOUND \<longrightarrow> s = [] \<and> map_of mapping fb_col = Some None)"
proof -
  let ?nm = "atf_norm_map atf_cols"
  obtain s k where row: "override_row atf_cols ?nm (fb_col, atf_src) = (fb_col, s, k)"
    using fst_override_row[of atf_cols ?nm "(fb_col, atf_src)"]
    by (cases "override_row atf_cols ?nm (fb_col, atf_src)") simp
  from build_mapping_rows[OF assms(1,2)] obtain rows where
    m: "mapping = map row_value details"
    and d: "details = map (override_row atf_cols ?nm) overrides @ rows"
    by blast
  from assms(3) row d have mem: "(fb_col, s, k) \<in> set details" by force
  note keys = build_mapping_keys[OF assms(1,2)]
  have pair: "(fb_col, (s, k)) \<in> set details" using mem by simp
  have f: "filter (\<lambda>row. fst row = fb_col) details = [(fb_col, s, k)]"
    using filter_key_single[OF keys(3) pair] by simp
  note c = override_row_cases[OF row]
  have idx: "(map_of ?nm (norm_key atf_src) = None) = (norm_key atf_src \<notin> norm_key ` set atf_cols)"
    by (simp add: atf_norm_map_lookup)
  have nf: "k = OVERRIDE_NOT_FOUND \<longleftrightarrow>
      atf_src \<notin> set atf_cols \<and> norm_key atf_src \<notin> norm_key ` set atf_cols"
    using c idx by auto
  have kinds: "k = OVERRIDE \<or> k = OVERRIDE_NORMALIZED \<or> k = OVERRIDE_NOT_FOUND"
    using c by blast
  have ov: "k = OVERRIDE \<longleftrightarrow> atf_src \<in> set atf_cols" using c by auto
  have ovs: "k = OVERRIDE \<longrightarrow> s = atf_src" using c by auto
  have none: "k = OVERRIDE_NOT_FOUND \<longrightarrow> s = [] \<and> map_of mapping fb_col = Some None"
    using c map_of_row_values[OF keys(3) mem] m by auto
  from f kinds ov ovs nf none show ?thesis by blast
qed

text \<open>
  The theorem at the example of the claim: the override of \<open>Manufacturer\<close> by
  \<open>Brand\<close> wins over the alias \<open>Maker\<close>.
\<close>

theorem override_priority_witness:
  "build_mapping [''Brand'', ''Maker''] [''Manufacturer''] [(''Manufacturer'', ''Brand'')] (21 / 25) =
     Inr ([(''Manufacturer'', Some ''Brand'')], [(''Manufacturer'', ''Brand'', OVERRIDE)]) \<and>
   distinct (map fst [(''Manufacturer'', ''Brand'')]) \<and>
   (''Manufacturer'', ''Brand'') \<in> set [(''Manufacturer'', ''Brand'')] \<and>
   (\<exists>s k. filter (\<lambda>row. fst row = ''Manufacturer'') [(''Manufacturer'', ''Brand'', OVERRIDE)] =
        [(''Manufacturer'', s, k)] \<and>
      (k = OVERRIDE \<or> k = OVERRIDE_NORMALIZED \<or> k = OVERRIDE_NOT_FOUND))"
proof -
  have b: "build_mapping [''Brand'', ''Maker''] [''Manufacturer''] [(''Manufacturer'', ''Brand'')] (21 / 25) =
     Inr ([(''Manufacturer'', Some ''Brand'')], [(''Manufacturer'', ''Brand'', OVERRIDE)])"
    by code_simp
  have d: "distinct (map fst [(''Manufacturer'', ''Brand'')])" by simp
  have i: "(''Manufacturer'', ''Brand'') \<in> set [(''Manufacturer'', ''Brand'')]" by simp
  from override_priority[OF b d i] b d i show ?thesis by blast
qed




text \<open>
  C10. The two outputs of \<open>build_mapping\<close> agree: no column has two rows in the trace; a
  row is \<open>MISSING\<close> or \<open>OVERRIDE_NOT_FOUND\<close> exactly when the mapping holds \<open>None\<close> for
  its column, and then its source field is empty; in every other row the source field is the
  value of the mapping for the column and is one of the source columns. The keys of the
  overrides are distinct, as the keys of a dictionary are.
\<close>

theorem outputs_coherent:
  assumes "build_mapping atf_cols fb_cols overrides cutoff = Inr (mapping, details)"
    and "distinct (map fst overrides)"
  shows "distinct (map fst details) \<and>
     (\<forall>(c, s, k)\<in>set details.
        ((k = MISSING \<or> k = OVERRIDE_NOT_FOUND) \<longleftrightarrow> map_of mapping c = Some None) \<and>
        (k = MISSING \<or> k = OVERRIDE_NOT_FOUND \<longrightarrow> s = []) \<and>
        (\<not> (k = MISSING \<or> k = OVERRIDE_NOT_FOUND) \<longrightarrow>
           map_of mapping c = Some (Some s) \<and> s \<in> set atf_cols))"
proof -
  note keys = build_mapping_keys[OF assms]
  have "((k = MISSING \<or> k = OVERRIDE_NOT_FOUND) \<longleftrightarrow> map_of mapping c = Some None) \<and>
        (k = MISSING \<or> k = OVERRIDE_NOT_FOUND \<longrightarrow> s = []) \<and>
        (\<not> (k = MISSING \<or> k = OVERRIDE_NOT_FOUND) \<longrightarrow>
           map_of mapping c = Some (Some s) \<and> s \<in> set atf_cols)"
    if mem: "(c, s, k) \<in> set details" for c s k
    using build_mapping_row_value[OF assms mem] by auto
  with keys(3) show ?thesis by blast
qed

text \<open>
  The theorem at an input with an override that is not found and a direct match.
\<close>

theorem outputs_coherent_witness:
  "build_mapping [''Ser'', ''Mod''] [''Ser'', ''Mod''] [(''Mod'', ''Nope'')] (21 / 25) =
     Inr ([(''Mod'', None), (''Ser'', Some ''Ser'')],
          [(''Mod'', [], OVERRIDE_NOT_FOUND), (''Ser'', ''Ser'', DIRECT)]) \<and>
   distinct (map fst [(''Mod'', ''Nope'')]) \<and>
   distinct (map fst [(''Mod'', [], OVERRIDE_NOT_FOUND), (''Ser'', ''Ser'', DIRECT)]) \<and>
   map_of [(''Mod'', None), (''Ser'', Some ''Ser'')] ''Mod'' = Some None \<and>
   map_of [(''Mod'', None), (''Ser'', Some ''Ser'')] ''Ser'' = Some (Some ''Ser'') \<and>
   ''Ser'' \<in> set [''Ser'', ''Mod'']"
proof -
  have b: "build_mapping [''Ser'', ''Mod''] [''Ser'', ''Mod''] [(''Mod'', ''Nope'')] (21 / 25) =
     Inr ([(''Mod'', None), (''Ser'', Some ''Ser'')],
          [(''Mod'', [], OVERRIDE_NOT_FOUND), (''Ser'', ''Ser'', DIRECT)])"
    by code_simp
  have d: "distinct (map fst [(''Mod'', ''Nope'')])" by simp
  have i1: "(''Mod'', [], OVERRIDE_NOT_FOUND) \<in> set [(''Mod'', [], OVERRIDE_NOT_FOUND), (''Ser'', ''Ser'', DIRECT)]"
    and i2: "(''Ser'', ''Ser'', DIRECT) \<in> set [(''Mod'', [], OVERRIDE_NOT_FOUND), (''Ser'', ''Ser'', DIRECT)]"
    by simp_all
  from outputs_coherent[OF b d] i1 i2 b d show ?thesis by fastforce
qed




text \<open>
  C7 (amended). When no source column is the empty string, the guidance sheet has one row
  for every target column, in the order and with the repetitions of the target columns,
  whose row in the trace is \<open>MISSING\<close> or \<open>OVERRIDE_NOT_FOUND\<close>. The text of the row is
  the concatenation, in the order of the rules and with the separator \<open>" | "\<close>, of the
  hints of the rules of which a keyword occurs in the lowercased column name; when no rule
  matches, it is the fallback hint.
\<close>

theorem guidance_for_unmapped_columns:
  assumes "build_mapping atf_cols fb_cols overrides cutoff = Inr (mapping, details)"
    and "distinct (map fst overrides)"
    and "[] \<notin> set atf_cols"
  shows "guidance_rows mapping fb_cols =
     map (\<lambda>col. (col, spec_guidance_text col))
       (filter (\<lambda>c. (c, [], MISSING) \<in> set details \<or> (c, [], OVERRIDE_NOT_FOUND) \<in> set details)
          fb_cols)"
proof -
  note keys = build_mapping_keys[OF assms(1,2)]
  have cover: "set fb_cols \<subseteq> set (map fst details)"
    unfolding keys(1) by (auto simp: set_first_occurrences)
  have "(\<not> truthy (mapping_get mapping c)) =
      ((c, [], MISSING) \<in> set details \<or> (c, [], OVERRIDE_NOT_FOUND) \<in> set details)"
    if "c \<in> set fb_cols" for c
  proof -
    from that cover obtain s k where mem: "(c, s, k) \<in> set details" by force
    note v = build_mapping_row_value[OF assms(1,2) mem]
    show ?thesis
    proof (cases "k = MISSING \<or> k = OVERRIDE_NOT_FOUND")
      case True
      with v(1) have "\<not> truthy (mapping_get mapping c)" by (simp add: mapping_get_def)
      moreover from v(2)[OF True] mem True
      have "(c, [], MISSING) \<in> set details \<or> (c, [], OVERRIDE_NOT_FOUND) \<in> set details" by auto
      ultimately show ?thesis by simp
    next
      case False
      from v(3)[OF False] assms(3) have "s \<noteq> []" by auto
      with v(1) False have "truthy (mapping_get mapping c)" by (simp add: mapping_get_def)
      moreover have "\<not> ((c, [], MISSING) \<in> set details \<or> (c, [], OVERRIDE_NOT_FOUND) \<in> set details)"
        using unique_row[OF keys(3) mem] False by blast
      ultimately show ?thesis by simp
    qed
  qed
  then have "missing_columns mapping fb_cols =
      filter (\<lambda>c. (c, [], MISSING) \<in> set details \<or> (c, [], OVERRIDE_NOT_FOUND) \<in> set details) fb_cols"
    unfolding missing_columns_def by (intro filter_cong) simp_all
  then show ?thesis by (simp add: guidance_rows_def join_hints_for)
qed


text \<open>
  The theorem at an input with an override that is not found, a direct match and a column
  without any match.
\<close>

theorem guidance_for_unmapped_columns_witness:
  "build_mapping [''Ser''] [''Ser'', ''Model'', ''Zq''] [(''Model'', ''Nope'')] (21 / 25) =
     Inr ([(''Model'', None), (''Ser'', Some ''Ser''), (''Zq'', None)],
          [(''Model'', [], OVERRIDE_NOT_FOUND), (''Ser'', ''Ser'', DIRECT), (''Zq'', [], MISSING)]) \<and>
   distinct (map fst [(''Model'', ''Nope'')]) \<and>
   [] \<notin> set [''Ser''] \<and>
   guidance_rows [(''Model'', None), (''Ser'', Some ''Ser''), (''Zq'', None)] [''Ser'', ''Model'', ''Zq''] =
     [(''Model'', ''Modelo - marcacao na arma; invoice/packing slip.''),
      (''Zq'', ''Verificar notas de entrada, 4473, copia de FFL e marcacoes fisicas.'')] \<and>
   guidance_rows [(''Model'', None), (''Ser'', Some ''Ser''), (''Zq'', None)] [''Ser'', ''Model'', ''Zq''] =
     map (\<lambda>col. (col, spec_guidance_text col))
       (filter (\<lambda>c. (c, [], MISSING) \<in> set [(''Model'', [], OVERRIDE_NOT_FOUND), (''Ser'', ''Ser'', DIRECT), (''Zq'', [], MISSING)] \<or>
                    (c, [], OVERRIDE_NOT_FOUND) \<in> set [(''Model'', [], OVERRIDE_NOT_FOUND), (''Ser'', ''Ser'', DIRECT), (''Zq'', [], MISSING)])
          [''Ser'', ''Model'', ''Zq''])"
proof -
  have nm: "atf_norm_map [''Ser''] = [(''ser'', ''Ser'')]" by code_simp
  have k: "norm_key ''Nope'' = ''nope''" "norm_key ''Ser'' = ''ser''" "norm_key ''Zq'' = ''zq''"
    by code_simp+
  have o: "''zq'' \<notin> set alias_keys" by (simp add: alias_keys_value)
  have g: "get_close_matches ''zq'' [''ser''] (21 / 25) = Inr []" by code_simp
  have b: "build_mapping [''Ser''] [''Ser'', ''Model'', ''Zq''] [(''Model'', ''Nope'')] (21 / 25) =
     Inr ([(''Model'', None), (''Ser'', Some ''Ser''), (''Zq'', None)],
          [(''Model'', [], OVERRIDE_NOT_FOUND), (''Ser'', ''Ser'', DIRECT), (''Zq'', [], MISSING)])"
    by (simp add: build_mapping_def apply_override_def resolve_column_def Let_def nm k
        alias_scan_outside[OF o] g)
  have d: "distinct (map fst [(''Model'', ''Nope'')])" by simp
  have e: "[] \<notin> set [''Ser'']" by simp
  have r: "guidance_rows [(''Model'', None), (''Ser'', Some ''Ser''), (''Zq'', None)] [''Ser'', ''Model'', ''Zq''] =
     [(''Model'', ''Modelo - marcacao na arma; invoice/packing slip.''),
      (''Zq'', ''Verificar notas de entrada, 4473, copia de FFL e marcacoes fisicas.'')]"
    by code_simp
  from guidance_for_unmapped_columns[OF b d e] b d e r show ?thesis by blast
qed

text \<open>
  The claim as stated fails: the target column \<open>Model\<close>, whose override is not found and
  whose row is \<open>OVERRIDE_NOT_FOUND\<close>, has a row in the guidance sheet.
\<close>

theorem guidance_only_for_missing_counterexample:
  "build_mapping [''Ser''] [''Ser'', ''Model''] [(''Model'', ''Nope'')] (21 / 25) =
     Inr ([(''Model'', None), (''Ser'', Some ''Ser'')],
          [(''Model'', [], OVERRIDE_NOT_FOUND), (''Ser'', ''Ser'', DIRECT)]) \<and>
   guidance_rows [(''Model'', None), (''Ser'', Some ''Ser'')] [''Ser'', ''Model''] =
     [(''Model'', ''Modelo - marcacao na arma; invoice/packing slip.'')]"
  by code_simp

text \<open>
  C8. With \<^verbatim>\<open>--strict\<close> and a target column that is \<open>MISSING\<close>, the run does not end
  with the exit status 2: the module does not import \<^verbatim>\<open>sys\<close>, so the line that prints
  the message raises \<^verbatim>\<open>NameError\<close>, and the interpreter ends with the status 1.
\<close>

theorem strict_exit_name_error:
  "build_mapping [''Ser''] [''Ser'', ''Zq''] [] (21 / 25) =
     Inr ([(''Ser'', Some ''Ser''), (''Zq'', None)],
          [(''Ser'', ''Ser'', DIRECT), (''Zq'', [], MISSING)]) \<and>
   finish_run True [(''Ser'', Some ''Ser''), (''Zq'', None)] [''Ser'', ''Zq''] = Inl (NameError ''sys'') \<and>
   exit_status (finish_run True [(''Ser'', Some ''Ser''), (''Zq'', None)] [''Ser'', ''Zq'']) = 1"
proof -
  have nm: "atf_norm_map [''Ser''] = [(''ser'', ''Ser'')]" by code_simp
  have k: "norm_key ''Ser'' = ''ser''" "norm_key ''Zq'' = ''zq''" by code_simp+
  have o: "''zq'' \<notin> set alias_keys" by (simp add: alias_keys_value)
  have g: "get_close_matches ''zq'' [''ser''] (21 / 25) = Inr []" by code_simp
  have b: "build_mapping [''Ser''] [''Ser'', ''Zq''] [] (21 / 25) =
     Inr ([(''Ser'', Some ''Ser''), (''Zq'', None)],
          [(''Ser'', ''Ser'', DIRECT), (''Zq'', [], MISSING)])"
    by (simp add: build_mapping_def resolve_column_def Let_def nm k alias_scan_outside[OF o] g)
  have f: "finish_run True [(''Ser'', Some ''Ser''), (''Zq'', None)] [''Ser'', ''Zq''] = Inl (NameError ''sys'')"
    by code_simp
  from b f show ?thesis by simp
qed

text \<open>
  C9. For a file with the suffix \<open>.json\<close> the loader does not return the mapping: the
  module does not import \<^verbatim>\<open>json\<close>, so \<^verbatim>\<open>json.loads\<close> raises \<^verbatim>\<open>NameError\<close>.
\<close>

theorem read_overrides_json_name_error:
  "read_overrides True
     (Some \<lparr>file_exists = True, file_suffix = ''.json'', csv_columns = [], csv_rows = [],
            json_items = [(''Manufacturer'', ''Maker'')], yaml_items = []\<rparr>) =
   Inl (NameError ''json'')"
  by code_simp




end
